theory Spec2Isabelle
  imports Main "HOL-Library.Word"
begin

section \<open>Messages, pages and ports\<close>

text \<open>
  The Go sources \<^verbatim>\<open>akita/mem/vm/gmmu/comp.go\<close>, \<^verbatim>\<open>gmmu/builder.go\<close> and
  \<^verbatim>\<open>akita/mem/vm/tlb/ring_noc.go\<close> are embedded as functions on explicit state.
  A Go panic (\<^verbatim>\<open>log.Panicf\<close>, \<^verbatim>\<open>panic\<close>, a nil dereference, an index out of range)
  is the left injection of the result type.
\<close>

datatype error =
    Panic string
  | NilDereference
  | IndexOutOfRange
  | DivideByZero
  | BufferOverflow

text \<open>Time stamps are only copied into messages by the code; no arithmetic is done on them.\<close>

type_synonym VTimeInSec = int

text \<open>\<^verbatim>\<open>Src\<close> and \<^verbatim>\<open>Dst\<close> of a message: a nil port, a named port, or (in the ring, where
  the code stores the L1-TLB itself) the L1-TLB with a given ID.\<close>

datatype endpoint = NilPort | PortRef string | L1Ref int

text \<open>Modelled from the spec: \<^verbatim>\<open>vm.Page\<close> is declared in package \<^verbatim>\<open>vm\<close>, outside these sources; the
  spec gives the tuple (PID, VAddr, PAddr, DeviceID, Valid).\<close>

record page =
  PID :: "32 word"
  VAddr :: "64 word"
  PAddr :: "64 word"
  DeviceID :: "64 word"
  Valid :: bool

definition zero_page :: page where
  "zero_page = \<lparr>PID = 0, VAddr = 0, PAddr = 0, DeviceID = 0, Valid = False\<rparr>"

text \<open>\<^verbatim>\<open>sim.MsgMeta\<close>, embedded in every message. Message IDs come from the process-wide
  generator, a counter. \<^verbatim>\<open>metaPID\<close> is the field that \<^verbatim>\<open>ReceiveProbeRequest\<close> reads as
  \<^verbatim>\<open>req.PID\<close> on a \<^verbatim>\<open>ProbeRequest\<close>, whose declaration has no field of that name of its
  own; no function of the source ever writes it, so it keeps the zero value.\<close>

record msg_meta =
  ID :: nat
  Src :: endpoint
  Dst :: endpoint
  SendTime :: VTimeInSec
  RecvTime :: VTimeInSec
  TrafficClass :: int
  TrafficBytes :: int
  metaPID :: "32 word"

record TranslationReq = msg_meta +
  reqPID :: "32 word"
  reqVAddr :: "64 word"
  reqDeviceID :: "64 word"

record TranslationRsp = msg_meta +
  RspTo :: nat
  rspPage :: page

record ProbeRequest = msg_meta +
  VirtualAddr :: "64 word"
  TTL :: int
  Direction :: string
  SourceTLB :: int
  reqSEID :: int

record ProbeResponse = msg_meta +
  rspVirtualAddr :: "64 word"
  Page :: "page option"
  rspSourceTLB :: int
  rspSEID :: int

text \<open>A \<^verbatim>\<open>sim.Msg\<close> is an interface value; \<open>OtherMsg\<close> stands for any implementation
  other than the four below and carries the name \<^verbatim>\<open>reflect.TypeOf\<close> prints for it.\<close>

datatype msg =
    TranslationReqMsg TranslationReq
  | TranslationRspMsg TranslationRsp
  | ProbeRequestMsg ProbeRequest
  | ProbeResponseMsg ProbeResponse
  | OtherMsg string

fun typeOf :: "msg \<Rightarrow> string" where
  "typeOf (TranslationReqMsg _) = ''*vm.TranslationReq''"
| "typeOf (TranslationRspMsg _) = ''*vm.TranslationRsp''"
| "typeOf (ProbeRequestMsg _) = ''*tlb.ProbeRequest''"
| "typeOf (ProbeResponseMsg _) = ''*tlb.ProbeResponse''"
| "typeOf (OtherMsg n) = n"

text \<open>\<^verbatim>\<open>vm.TranslationRspBuilder{}...Build()\<close> and \<^verbatim>\<open>vm.TranslationReqBuilder{}...Build()\<close>:
  the builder draws a fresh ID and copies the fields given to it.\<close>

definition buildTranslationRsp ::
  "nat \<Rightarrow> VTimeInSec \<Rightarrow> endpoint \<Rightarrow> endpoint \<Rightarrow> nat \<Rightarrow> page \<Rightarrow> TranslationRsp" where
  "buildTranslationRsp newID now src dst rspTo pg =
     \<lparr>ID = newID, Src = src, Dst = dst, SendTime = now, RecvTime = 0,
      TrafficClass = 0, TrafficBytes = 0, metaPID = 0, RspTo = rspTo, rspPage = pg\<rparr>"

definition buildTranslationReq ::
  "nat \<Rightarrow> VTimeInSec \<Rightarrow> endpoint \<Rightarrow> endpoint \<Rightarrow> 32 word \<Rightarrow> 64 word \<Rightarrow> 64 word
     \<Rightarrow> TranslationReq" where
  "buildTranslationReq newID now src dst pid vAddr devID =
     \<lparr>ID = newID, Src = src, Dst = dst, SendTime = now, RecvTime = 0,
      TrafficClass = 0, TrafficBytes = 0, metaPID = 0,
      reqPID = pid, reqVAddr = vAddr, reqDeviceID = devID\<rparr>"

subsection \<open>Ports and buffered senders\<close>

text \<open>Modelled from the spec: \<^verbatim>\<open>sim.Port\<close> is outside these sources. The spec: ports
  are buffered, of finite capacity, with a non-blocking \<^verbatim>\<open>Send\<close> returning success or busy
  and a non-blocking \<^verbatim>\<open>Retrieve\<close> returning the next message or nothing. \<open>incoming\<close> is
  the buffer \<^verbatim>\<open>Retrieve\<close> reads, \<open>outgoing\<close> the messages \<^verbatim>\<open>Send\<close> has accepted, and
  \<open>outCap\<close> the number of messages the far side holds before \<^verbatim>\<open>Send\<close> reports busy;
  \<open>inCap\<close> is the capacity the port was created with.\<close>

record port =
  portName :: string
  inCap :: nat
  incoming :: "msg list"
  outgoing :: "msg list"
  outCap :: nat

definition port_Send :: "port \<Rightarrow> msg \<Rightarrow> bool \<times> port" where
  "port_Send p m =
     (if length (outgoing p) < outCap p
      then (True, p\<lparr>outgoing := outgoing p @ [m]\<rparr>)
      else (False, p))"

definition port_Retrieve :: "port \<Rightarrow> msg option \<times> port" where
  "port_Retrieve p =
     (case incoming p of
        [] \<Rightarrow> (None, p)
      | m # ms \<Rightarrow> (Some m, p\<lparr>incoming := ms\<rparr>))"

text \<open>Modelled from the spec: \<^verbatim>\<open>sim.BufferedSender\<close> is outside these sources. It
  is a bounded buffer in front of a port: \<^verbatim>\<open>CanSend(n)\<close> tells whether \<open>n\<close> more messages
  fit, \<^verbatim>\<open>Send\<close> enqueues (a push on a full buffer panics), and \<^verbatim>\<open>Tick\<close> pushes queued
  messages onto the port as its flow control permits.\<close>

record buffered_sender =
  senderBuf :: "msg list"
  senderCap :: nat

definition CanSend :: "buffered_sender \<Rightarrow> nat \<Rightarrow> bool" where
  "CanSend s n = (length (senderBuf s) + n \<le> senderCap s)"

definition sender_Send :: "buffered_sender \<Rightarrow> msg \<Rightarrow> error + buffered_sender" where
  "sender_Send s m =
     (if length (senderBuf s) < senderCap s
      then Inr (s\<lparr>senderBuf := senderBuf s @ [m]\<rparr>)
      else Inl BufferOverflow)"

fun sender_drain :: "msg list \<Rightarrow> port \<Rightarrow> bool \<Rightarrow> bool \<times> msg list \<times> port" where
  "sender_drain [] p progress = (progress, [], p)"
| "sender_drain (m # ms) p progress =
     (case port_Send p m of
        (True, p') \<Rightarrow> sender_drain ms p' True
      | (False, _) \<Rightarrow> (progress, m # ms, p))"

definition sender_Tick :: "buffered_sender \<Rightarrow> port \<Rightarrow> bool \<times> buffered_sender \<times> port" where
  "sender_Tick s p =
     (case sender_drain (senderBuf s) p False of
        (progress, rest, p') \<Rightarrow> (progress, s\<lparr>senderBuf := rest\<rparr>, p'))"

subsection \<open>Page table and Cuckoo filter\<close>

text \<open>Modelled from the spec: \<^verbatim>\<open>vm.PageTable\<close> is outside these sources; the spec
  treats it as a key-to-page lookup oracle with \<^verbatim>\<open>Find(PID, VAddr)\<close> and \<^verbatim>\<open>Update(page)\<close>.
  \<^verbatim>\<open>Find\<close> on a missing key returns the zero page and \<^verbatim>\<open>false\<close>.\<close>

type_synonym page_table = "32 word \<times> 64 word \<Rightarrow> page option"

definition pt_Find :: "page_table \<Rightarrow> 32 word \<Rightarrow> 64 word \<Rightarrow> page \<times> bool" where
  "pt_Find pt pid vAddr =
     (case pt (pid, vAddr) of None \<Rightarrow> (zero_page, False) | Some pg \<Rightarrow> (pg, True))"

definition pt_Update :: "page_table \<Rightarrow> page \<Rightarrow> page_table" where
  "pt_Update pt pg = pt((PID pg, VAddr pg) \<mapsto> pg)"

text \<open>The Cuckoo filter is a third-party library. Its three operations and its
  constructor are parameters of the model: every theorem below holds for any filter,
  with false positives and failing inserts included.\<close>

record 'f filter_ops =
  NewFilter :: "nat \<Rightarrow> 'f"
  Lookup :: "'f \<Rightarrow> 8 word list \<Rightarrow> bool"
  Insert :: "'f \<Rightarrow> 8 word list \<Rightarrow> bool \<times> 'f"
  Reset :: "'f \<Rightarrow> 'f"

text \<open>\<^verbatim>\<open>encodeVAddrPID\<close>: 8 bytes of the address then 4 bytes of the PID, little-endian.\<close>

definition putLittleEndian :: "nat \<Rightarrow> 'a::len word \<Rightarrow> 8 word list" where
  "putLittleEndian n w = map (\<lambda>i. ucast (drop_bit (8 * i) w)) [0..<n]"

definition encodeVAddrPID :: "64 word \<Rightarrow> 32 word \<Rightarrow> 8 word list" where
  "encodeVAddrPID vAddr pid = putLittleEndian 8 vAddr @ putLittleEndian 4 pid"

section \<open>The GMMU (\<^verbatim>\<open>gmmu/comp.go\<close>)\<close>

record transaction =
  req :: "TranslationReq option"
  page :: page
  cycleLeft :: int

definition zero_transaction :: transaction where
  "zero_transaction = \<lparr>req = None, page = zero_page, cycleLeft = 0\<rparr>"

record 'f Comp =
  deviceID :: "64 word"
  topPort :: port
  bottomPort :: port
  LowModule :: endpoint
  topSender :: buffered_sender
  bottomSender :: buffered_sender
  pageTable :: page_table
  latency :: int
  maxRequestsInFlight :: int
  walkingTranslations :: "transaction list"
  remoteMemReqs :: "64 word \<Rightarrow> transaction option"
  toRemoveFromPTW :: "nat list"
  cuckooFilter :: 'f
  idGenerator :: nat

definition startWalking :: "'f Comp \<Rightarrow> TranslationReq \<Rightarrow> 'f Comp" where
  "startWalking gmmu r =
     gmmu\<lparr>walkingTranslations :=
             walkingTranslations gmmu @ [\<lparr>req = Some r, page = zero_page, cycleLeft = latency gmmu\<rparr>]\<rparr>"

definition parseFromTop ::
  "'f filter_ops \<Rightarrow> VTimeInSec \<Rightarrow> 'f Comp \<Rightarrow> error + (bool \<times> 'f Comp)" where
  "parseFromTop ops now gmmu =
     (if int (length (walkingTranslations gmmu)) \<ge> maxRequestsInFlight gmmu
      then Inr (False, gmmu)
      else
        (case port_Retrieve (topPort gmmu) of
           (None, _) \<Rightarrow> Inr (False, gmmu)
         | (Some m, tp) \<Rightarrow>
             (let g1 = gmmu\<lparr>topPort := tp\<rparr> in
              case m of
                TranslationReqMsg r \<Rightarrow>
                  (let found = Lookup ops (cuckooFilter g1) (encodeVAddrPID (reqVAddr r) (reqPID r))
                   in
                     if found then
                       (let (pg, found') = pt_Find (pageTable g1) (reqPID r) (reqVAddr r) in
                        if found' \<and> DeviceID pg = deviceID g1 then
                          (if CanSend (topSender g1) 1 then
                             (let rsp = buildTranslationRsp (idGenerator g1) now
                                          (PortRef (portName (topPort g1))) (Src r) (ID r) pg
                              in case sender_Send (topSender g1) (TranslationRspMsg rsp) of
                                   Inl e \<Rightarrow> Inl e
                                 | Inr ts \<Rightarrow>
                                     Inr (True, g1\<lparr>topSender := ts,
                                                   idGenerator := Suc (idGenerator g1)\<rparr>))
                           else Inr (True, startWalking g1 r))
                        else Inr (True, startWalking g1 r))
                     else Inr (True, startWalking g1 r))
              | _ \<Rightarrow> Inl (Panic (''gmmu cannot handle request of type '' @ typeOf m)))))"

fun toRemove_scan :: "nat list \<Rightarrow> nat \<Rightarrow> bool" where
  "toRemove_scan [] index = False"
| "toRemove_scan (remove # rest) index = (if remove = index then True else toRemove_scan rest index)"

definition toRemove :: "'f Comp \<Rightarrow> nat \<Rightarrow> bool" where
  "toRemove gmmu index = toRemove_scan (toRemoveFromPTW gmmu) index"

definition doPageWalkHit :: "VTimeInSec \<Rightarrow> nat \<Rightarrow> 'f Comp \<Rightarrow> error + (bool \<times> 'f Comp)" where
  "doPageWalkHit now walkingIndex gmmu =
     (if \<not> CanSend (topSender gmmu) 1 then Inr (False, gmmu)
      else if walkingIndex \<ge> length (walkingTranslations gmmu) then Inl IndexOutOfRange
      else
        (let walking = walkingTranslations gmmu ! walkingIndex in
         case req walking of
           None \<Rightarrow> Inl NilDereference
         | Some r \<Rightarrow>
             (let rsp = buildTranslationRsp (idGenerator gmmu) now
                          (PortRef (portName (topPort gmmu))) (Src r) (ID r) (page walking)
              in case sender_Send (topSender gmmu) (TranslationRspMsg rsp) of
                   Inl e \<Rightarrow> Inl e
                 | Inr ts \<Rightarrow>
                     Inr (True, gmmu\<lparr>topSender := ts,
                                     toRemoveFromPTW := toRemoveFromPTW gmmu @ [walkingIndex],
                                     idGenerator := Suc (idGenerator gmmu)\<rparr>))))"

definition finalizePageWalk :: "VTimeInSec \<Rightarrow> nat \<Rightarrow> 'f Comp \<Rightarrow> error + (bool \<times> 'f Comp)" where
  "finalizePageWalk now walkingIndex gmmu =
     (if walkingIndex \<ge> length (walkingTranslations gmmu) then Inl IndexOutOfRange
      else
        (case req (walkingTranslations gmmu ! walkingIndex) of
           None \<Rightarrow> Inl NilDereference
         | Some r \<Rightarrow>
             (let (pg, _) = pt_Find (pageTable gmmu) (reqPID r) (reqVAddr r);
                  w = walkingTranslations gmmu
              in doPageWalkHit now walkingIndex
                   (gmmu\<lparr>walkingTranslations := w[walkingIndex := (w ! walkingIndex)\<lparr>page := pg\<rparr>]\<rparr>))))"

definition processRemoteMemReq :: "VTimeInSec \<Rightarrow> nat \<Rightarrow> 'f Comp \<Rightarrow> error + (bool \<times> 'f Comp)" where
  "processRemoteMemReq now walkingIndex gmmu =
     (if walkingIndex \<ge> length (walkingTranslations gmmu) then Inl IndexOutOfRange
      else
        (case req (walkingTranslations gmmu ! walkingIndex) of
           None \<Rightarrow> Inl NilDereference
         | Some walking \<Rightarrow>
             (let g1 = gmmu\<lparr>remoteMemReqs :=
                              (remoteMemReqs gmmu)(reqVAddr walking \<mapsto>
                                                     walkingTranslations gmmu ! walkingIndex)\<rparr>;
                  r = buildTranslationReq (idGenerator g1) now
                        (PortRef (portName (bottomPort g1))) (LowModule g1)
                        (reqPID walking) (reqVAddr walking) (reqDeviceID walking);
                  g2 = g1\<lparr>idGenerator := Suc (idGenerator g1)\<rparr>
              in case port_Send (bottomPort g2) (TranslationReqMsg r) of
                   (False, _) \<Rightarrow> Inr (False, g2)
                 | (True, bp) \<Rightarrow>
                     Inr (True, g2\<lparr>bottomPort := bp,
                                   toRemoveFromPTW := toRemoveFromPTW g2 @ [walkingIndex]\<rparr>))))"

text \<open>The body of the first loop of \<^verbatim>\<open>walkPageTable\<close>, at index \<open>i\<close> (in range by the
  loop condition).\<close>

definition walkStep ::
  "VTimeInSec \<Rightarrow> nat \<Rightarrow> bool \<Rightarrow> 'f Comp \<Rightarrow> error + (bool \<times> 'f Comp)" where
  "walkStep now i madeProgress gmmu =
     (let w = walkingTranslations gmmu in
      if cycleLeft (w ! i) > 0
      then Inr (True, gmmu\<lparr>walkingTranslations := w[i := (w ! i)\<lparr>cycleLeft := cycleLeft (w ! i) - 1\<rparr>]\<rparr>)
      else
        (case req (w ! i) of
           None \<Rightarrow> Inl NilDereference
         | Some r \<Rightarrow>
             (let (pg, _) = pt_Find (pageTable gmmu) (reqPID r) (reqVAddr r) in
              case (if DeviceID pg = deviceID gmmu
                    then finalizePageWalk now i gmmu
                    else processRemoteMemReq now i gmmu) of
                Inl e \<Rightarrow> Inl e
              | Inr (b, g') \<Rightarrow> Inr (b \<or> madeProgress, g'))))"

lemma doPageWalkHit_length:
  "doPageWalkHit now i g = Inr (b, g') \<Longrightarrow>
     length (walkingTranslations g') = length (walkingTranslations g)"
  by (auto simp: doPageWalkHit_def Let_def split: if_splits option.splits sum.splits)

lemma finalizePageWalk_length:
  "finalizePageWalk now i g = Inr (b, g') \<Longrightarrow>
     length (walkingTranslations g') = length (walkingTranslations g)"
  by (auto simp: finalizePageWalk_def Let_def split: if_splits option.splits prod.splits
        dest!: doPageWalkHit_length)

lemma processRemoteMemReq_length:
  "processRemoteMemReq now i g = Inr (b, g') \<Longrightarrow>
     length (walkingTranslations g') = length (walkingTranslations g)"
  by (auto simp: processRemoteMemReq_def Let_def split: if_splits option.splits prod.splits bool.splits)

lemma walkStep_length:
  "walkStep now i mp g = Inr (b, g') \<Longrightarrow>
     length (walkingTranslations g') = length (walkingTranslations g)"
  by (auto simp: walkStep_def Let_def split: if_splits option.splits prod.splits sum.splits
        dest: finalizePageWalk_length processRemoteMemReq_length)

function walkLoop ::
  "VTimeInSec \<Rightarrow> nat \<Rightarrow> bool \<Rightarrow> 'f Comp \<Rightarrow> error + (bool \<times> 'f Comp)" where
  "walkLoop now i madeProgress gmmu =
     (if i < length (walkingTranslations gmmu)
      then (case walkStep now i madeProgress gmmu of
              Inl e \<Rightarrow> Inl e
            | Inr (madeProgress', g') \<Rightarrow> walkLoop now (Suc i) madeProgress' g')
      else Inr (madeProgress, gmmu))"
  by pat_completeness auto
termination
proof (relation "measure (\<lambda>(now, i, madeProgress, gmmu). length (walkingTranslations gmmu) - i)")
  show "wf (measure (\<lambda>(now, i, madeProgress, gmmu). length (walkingTranslations gmmu) - i))"
    by simp
next
  fix now :: VTimeInSec and i :: nat and madeProgress :: bool and gmmu :: "'f Comp"
    and x2 :: "bool \<times> 'f Comp" and x1 :: bool and x2a :: "'f Comp"
  assume "i < length (walkingTranslations gmmu)"
    and "walkStep now i madeProgress gmmu = Inr x2"
    and "(x1, x2a) = x2"
  then show "((now, Suc i, x1, x2a), (now, i, madeProgress, gmmu))
               \<in> measure (\<lambda>(now, i, madeProgress, gmmu). length (walkingTranslations gmmu) - i)"
    using walkStep_length [of now i madeProgress gmmu x1 x2a] by auto
qed

text \<open>The second loop of \<^verbatim>\<open>walkPageTable\<close>: the entries whose index is not marked.\<close>

fun compact :: "'f Comp \<Rightarrow> nat \<Rightarrow> transaction list \<Rightarrow> transaction list" where
  "compact gmmu i [] = []"
| "compact gmmu i (t # ts) =
     (if \<not> toRemove gmmu i then t # compact gmmu (Suc i) ts else compact gmmu (Suc i) ts)"

definition walkPageTable :: "VTimeInSec \<Rightarrow> 'f Comp \<Rightarrow> error + (bool \<times> 'f Comp)" where
  "walkPageTable now gmmu =
     (case walkLoop now 0 False gmmu of
        Inl e \<Rightarrow> Inl e
      | Inr (madeProgress, g1) \<Rightarrow>
          Inr (madeProgress,
               g1\<lparr>walkingTranslations := compact g1 0 (walkingTranslations g1),
                  toRemoveFromPTW := []\<rparr>))"

definition handleTranslationRsp ::
  "'f filter_ops \<Rightarrow> VTimeInSec \<Rightarrow> TranslationRsp \<Rightarrow> 'f Comp \<Rightarrow> error + (bool \<times> 'f Comp)" where
  "handleTranslationRsp ops now response gmmu =
     (let reqTransaction =
            (case remoteMemReqs gmmu (VAddr (rspPage response)) of
               None \<Rightarrow> zero_transaction
             | Some t \<Rightarrow> t);
          pt = pt_Update (pageTable gmmu) (rspPage response);
          key = encodeVAddrPID (VAddr (rspPage response)) (PID (rspPage response));
          (ok, f1) = Insert ops (cuckooFilter gmmu) key;
          f2 = (if \<not> ok then snd (Insert ops (Reset ops f1) key) else f1)
      in case req reqTransaction of
           None \<Rightarrow> Inl NilDereference
         | Some r \<Rightarrow>
             (let rsp = buildTranslationRsp (idGenerator gmmu) now
                          (PortRef (portName (topPort gmmu))) (Src r) (ID response)
                          (rspPage response)
              in case sender_Send (topSender gmmu) (TranslationRspMsg rsp) of
                   Inl e \<Rightarrow> Inl e
                 | Inr ts \<Rightarrow>
                     Inr (True, gmmu\<lparr>pageTable := pt, cuckooFilter := f2, topSender := ts,
                                     idGenerator := Suc (idGenerator gmmu),
                                     remoteMemReqs :=
                                       (remoteMemReqs gmmu)(VAddr (rspPage response) := None)\<rparr>)))"

definition fetchFromBottom ::
  "'f filter_ops \<Rightarrow> VTimeInSec \<Rightarrow> 'f Comp \<Rightarrow> error + (bool \<times> 'f Comp)" where
  "fetchFromBottom ops now gmmu =
     (if \<not> CanSend (topSender gmmu) 1 then Inr (False, gmmu)
      else
        (case port_Retrieve (bottomPort gmmu) of
           (None, _) \<Rightarrow> Inr (False, gmmu)
         | (Some m, bp) \<Rightarrow>
             (case m of
                TranslationRspMsg response \<Rightarrow>
                  handleTranslationRsp ops now response (gmmu\<lparr>bottomPort := bp\<rparr>)
              | _ \<Rightarrow> Inl (Panic (''gmmu canot handle request of type '' @ typeOf m)))))"

text \<open>\<^verbatim>\<open>Tick\<close>: the four stages run in order, each on the state the previous one left;
  a panic in any of them ends the run.\<close>

definition Tick :: "'f filter_ops \<Rightarrow> VTimeInSec \<Rightarrow> 'f Comp \<Rightarrow> error + (bool \<times> 'f Comp)" where
  "Tick ops now gmmu =
     (case sender_Tick (topSender gmmu) (topPort gmmu) of
        (p0, ts, tp) \<Rightarrow>
          (case parseFromTop ops now (gmmu\<lparr>topSender := ts, topPort := tp\<rparr>) of
             Inl e \<Rightarrow> Inl e
           | Inr (p1, g1) \<Rightarrow>
               (case walkPageTable now g1 of
                  Inl e \<Rightarrow> Inl e
                | Inr (p2, g2) \<Rightarrow>
                    (case fetchFromBottom ops now g2 of
                       Inl e \<Rightarrow> Inl e
                     | Inr (p3, g3) \<Rightarrow> Inr (p3 \<or> (p2 \<or> (p1 \<or> p0)), g3)))))"

declare walkLoop.simps [simp del]

subsection \<open>The builder (\<^verbatim>\<open>gmmu/builder.go\<close>)\<close>

record Builder =
  log2PageSize :: "64 word"
  builderPageTable :: "page_table option"
  maxNumReqInFlight :: int
  pageWalkingLatency :: int
  builderDeviceID :: "64 word"
  lowModule :: endpoint
  cuckooFilterCapacity :: nat

definition MakeBuilder :: Builder where
  "MakeBuilder =
     \<lparr>log2PageSize = 12, builderPageTable = None, maxNumReqInFlight = 16,
      pageWalkingLatency = 0, builderDeviceID = 0, lowModule = NilPort,
      cuckooFilterCapacity = 0\<rparr>"

definition newPort :: "nat \<Rightarrow> string \<Rightarrow> port" where
  "newPort cap name = \<lparr>portName = name, inCap = cap, incoming = [], outgoing = [], outCap = 0\<rparr>"

definition Build :: "'f filter_ops \<Rightarrow> Builder \<Rightarrow> string \<Rightarrow> 'f Comp" where
  "Build ops b0 name =
     (let b1 = (if maxNumReqInFlight b0 = 0 then b0\<lparr>maxNumReqInFlight := 16\<rparr> else b0);
          b2 = (if pageWalkingLatency b1 = 0 then b1\<lparr>pageWalkingLatency := 10\<rparr> else b1);
          b = (if cuckooFilterCapacity b2 = 0 then b2\<lparr>cuckooFilterCapacity := 1000000\<rparr> else b2)
      in \<lparr>deviceID = builderDeviceID b,
          topPort = newPort 4096 (name @ ''.ToTop''),
          bottomPort = newPort 4096 (name @ ''.BottomPort''),
          LowModule = lowModule b,
          topSender = \<lparr>senderBuf = [], senderCap = 4096\<rparr>,
          bottomSender = \<lparr>senderBuf = [], senderCap = 4096\<rparr>,
          pageTable = (case builderPageTable b of Some pt \<Rightarrow> pt | None \<Rightarrow> Map.empty),
          latency = pageWalkingLatency b,
          maxRequestsInFlight = maxNumReqInFlight b,
          walkingTranslations = [],
          remoteMemReqs = Map.empty,
          toRemoveFromPTW = [],
          cuckooFilter = NewFilter ops (cuckooFilterCapacity b),
          idGenerator = 0\<rparr>)"

subsection \<open>Reachable states\<close>

text \<open>The states of a GMMU: the state \<^verbatim>\<open>Build\<close> returns, the state after a tick that did
  not panic, and any state in which the environment has changed the contents of the
  two ports (delivering and collecting messages) or the shared page table.\<close>

inductive reachable :: "'f filter_ops \<Rightarrow> Builder \<Rightarrow> string \<Rightarrow> 'f Comp \<Rightarrow> bool"
  for ops :: "'f filter_ops" and b :: Builder and name :: string where
  built: "reachable ops b name (Build ops b name)"
| ticked: "reachable ops b name g \<Longrightarrow> Tick ops now g = Inr (progress, g') \<Longrightarrow>
             reachable ops b name g'"
| environment: "reachable ops b name g \<Longrightarrow>
             reachable ops b name (g\<lparr>topPort := tp, bottomPort := bp, pageTable := pt\<rparr>)"

text \<open>Every transaction in the walking list and in \<open>remoteMemReqs\<close> holds its request
  (the pointer \<^verbatim>\<open>req\<close> is not nil).\<close>

definition requestsHeld :: "'f Comp \<Rightarrow> bool" where
  "requestsHeld g =
     ((\<forall>t \<in> set (walkingTranslations g). req t \<noteq> None)
      \<and> (\<forall>va t. remoteMemReqs g va = Some t \<longrightarrow> req t \<noteq> None))"

section \<open>The ring of L1-TLBs (\<^verbatim>\<open>tlb/ring_noc.go\<close>)\<close>

text \<open>Modelled from the spec: the MSHR is outside these sources. The spec: a mapping
  from (PID, VAddr) to an entry with the ordered list \<open>Requests\<close> of waiting client
  requests and the optional escalation request \<open>reqToBottom\<close>; at most one entry per key.
  \<^verbatim>\<open>Query\<close> and \<^verbatim>\<open>GetEntry\<close> return the entry of a key or nil, \<^verbatim>\<open>Remove\<close> deletes it.\<close>

record mshrEntry =
  Requests :: "TranslationReq list"
  reqToBottom :: "TranslationReq option"

type_synonym mshr = "32 word \<times> 64 word \<Rightarrow> mshrEntry option"

definition mshr_Query :: "mshr \<Rightarrow> 32 word \<Rightarrow> 64 word \<Rightarrow> mshrEntry option" where
  "mshr_Query m pid vAddr = m (pid, vAddr)"

definition mshr_GetEntry :: "mshr \<Rightarrow> 32 word \<Rightarrow> 64 word \<Rightarrow> mshrEntry option" where
  "mshr_GetEntry m pid vAddr = m (pid, vAddr)"

definition mshr_Remove :: "mshr \<Rightarrow> 32 word \<Rightarrow> 64 word \<Rightarrow> mshr" where
  "mshr_Remove m pid vAddr = m((pid, vAddr) := None)"

text \<open>Modelled from the spec: the set of a set-associative TLB is outside these
  sources. The spec: each way holds at most one page, identified by (PID, VAddr);
  \<^verbatim>\<open>Lookup(PID, VAddr)\<close>, \<^verbatim>\<open>Update(way, page)\<close>, \<^verbatim>\<open>Visit(way)\<close> (a recency hint) and
  \<^verbatim>\<open>Evict()\<close>, which returns the least recently used way whenever the set has a way.
  \<open>visitList\<close> lists the ways from the least to the most recently visited.\<close>

record tlbSet =
  blocks :: "page option list"
  visitList :: "nat list"

fun set_scan :: "page option list \<Rightarrow> nat \<Rightarrow> 32 word \<Rightarrow> 64 word \<Rightarrow> nat \<times> page \<times> bool" where
  "set_scan [] wayID pid vAddr = (0, zero_page, False)"
| "set_scan (None # bs) wayID pid vAddr = set_scan bs (Suc wayID) pid vAddr"
| "set_scan (Some pg # bs) wayID pid vAddr =
     (if PID pg = pid \<and> VAddr pg = vAddr then (wayID, pg, True)
      else set_scan bs (Suc wayID) pid vAddr)"

definition set_Lookup :: "tlbSet \<Rightarrow> 32 word \<Rightarrow> 64 word \<Rightarrow> nat \<times> page \<times> bool" where
  "set_Lookup s pid vAddr = set_scan (blocks s) 0 pid vAddr"

definition set_Evict :: "tlbSet \<Rightarrow> nat \<times> bool" where
  "set_Evict s = (case visitList s of [] \<Rightarrow> (0, False) | wayID # _ \<Rightarrow> (wayID, True))"

definition set_Update :: "tlbSet \<Rightarrow> nat \<Rightarrow> page \<Rightarrow> tlbSet" where
  "set_Update s wayID pg = s\<lparr>blocks := (blocks s)[wayID := Some pg]\<rparr>"

definition set_Visit :: "tlbSet \<Rightarrow> nat \<Rightarrow> tlbSet" where
  "set_Visit s wayID = s\<lparr>visitList := filter (\<lambda>w. w \<noteq> wayID) (visitList s) @ [wayID]\<rparr>"

text \<open>\<^verbatim>\<open>L1TLB\<close>: the fields of the embedded \<^verbatim>\<open>*TLB\<close> that the ring code reads (\<open>Sets\<close>,
  \<open>mshr\<close>, the two ports, \<open>LowModule\<close> and the map \<^verbatim>\<open>vAddrToSetID\<close> from an address to
  its set, which is taken as given), then the fields the source declares. The pointer
  \<^verbatim>\<open>Ring\<close> is not stored: every method takes the ring and the position of its receiver
  in \<^verbatim>\<open>ring.TLBs\<close>.\<close>

record L1TLB =
  Sets :: "tlbSet list"
  vAddrToSetID :: "64 word \<Rightarrow> nat"
  tlbMshr :: mshr
  tlbTopPort :: port
  tlbBottomPort :: port
  tlbLowModule :: endpoint
  tlbID :: int
  PrefetchBuffer :: "page list"
  ProbeQueue :: "ProbeRequest list"

text \<open>\<^verbatim>\<open>RingNoC\<close>. \<open>engineNow\<close> is what \<^verbatim>\<open>engine.CurrentTime()\<close> returns and \<open>ringIDs\<close>
  the state of the ID generator.\<close>

text \<open>Modelled from the spec: the ring connection \<^verbatim>\<open>conn\<close> is outside these sources; the
  spec treats it as a one-cycle switched transport. \<open>conn\<close> holds the messages handed to
  \<^verbatim>\<open>conn.Send\<close>, in order.\<close>

record RingNoC =
  TLBs :: "L1TLB list"
  NumTLBs :: int
  SEID :: int
  engineNow :: VTimeInSec
  conn :: "msg list"
  ringIDs :: nat

text \<open>Go's \<^verbatim>\<open>int\<close> is 64 bits wide: sums wrap around, and \<^verbatim>\<open>%\<close> truncates towards zero
  (the remainder has the sign of the dividend).\<close>

definition wrap64 :: "int \<Rightarrow> int" where
  "wrap64 x = (x + 2 ^ 63) mod 2 ^ 64 - 2 ^ 63"

definition go_rem :: "int \<Rightarrow> int \<Rightarrow> int" where
  "go_rem a b = sgn a * (\<bar>a\<bar> mod \<bar>b\<bar>)"

text \<open>\<^verbatim>\<open>ring.TLBs[i]\<close>: the position when it is in range, a panic otherwise.\<close>

definition tlbAt :: "RingNoC \<Rightarrow> int \<Rightarrow> error + nat" where
  "tlbAt ring i =
     (if 0 \<le> i \<and> i < int (length (TLBs ring)) then Inr (nat i) else Inl IndexOutOfRange)"

text \<open>\<^verbatim>\<open>GetNextTLB\<close> returns the position of the next TLB, or \<open>None\<close> for the nil it
  returns on any other direction string.\<close>

definition GetNextTLB :: "RingNoC \<Rightarrow> int \<Rightarrow> string \<Rightarrow> error + nat option" where
  "GetNextTLB ring currentTLBID direction =
     (if direction = ''clockwise'' then
        (if NumTLBs ring = 0 then Inl DivideByZero
         else case tlbAt ring (go_rem (wrap64 (currentTLBID + 1)) (NumTLBs ring)) of
                Inl e \<Rightarrow> Inl e
              | Inr nextID \<Rightarrow> Inr (Some nextID))
      else if direction = ''counterclockwise'' then
        (if NumTLBs ring = 0 then Inl DivideByZero
         else case tlbAt ring (go_rem (wrap64 (wrap64 (currentTLBID - 1) + NumTLBs ring))
                                 (NumTLBs ring)) of
                Inl e \<Rightarrow> Inl e
              | Inr nextID \<Rightarrow> Inr (Some nextID))
      else Inr None)"

text \<open>The loop of \<^verbatim>\<open>NotifyMiss\<close> over the queued requests: it threads the ID generator,
  the bottom port and the \<open>reqToBottom\<close> field of the entry.\<close>

fun notifyLoop ::
  "VTimeInSec \<Rightarrow> endpoint \<Rightarrow> 64 word \<Rightarrow> TranslationReq list
     \<Rightarrow> nat \<times> port \<times> TranslationReq option \<Rightarrow> nat \<times> port \<times> TranslationReq option" where
  "notifyLoop now low virtualAddr [] st = st"
| "notifyLoop now low virtualAddr (r # rs) (ids, bottom, toBottom) =
     (let fetchReq = buildTranslationReq ids now (PortRef (portName bottom)) low
                       (reqPID r) virtualAddr (reqDeviceID r)
      in case port_Send bottom (TranslationReqMsg fetchReq) of
           (True, bottom') \<Rightarrow>
             notifyLoop now low virtualAddr rs (Suc ids, bottom', Some fetchReq)
         | (False, _) \<Rightarrow>
             notifyLoop now low virtualAddr rs (Suc ids, bottom, toBottom))"

definition NotifyMiss :: "RingNoC \<Rightarrow> nat \<Rightarrow> 64 word \<Rightarrow> RingNoC" where
  "NotifyMiss ring self virtualAddr =
     (let tlb = TLBs ring ! self in
      case mshr_Query (tlbMshr tlb) 0 virtualAddr of
        None \<Rightarrow> ring
      | Some entry \<Rightarrow>
          (case notifyLoop (engineNow ring) (tlbLowModule tlb) virtualAddr (Requests entry)
                  (ringIDs ring, tlbBottomPort tlb, reqToBottom entry) of
             (ids, bottom, toBottom) \<Rightarrow>
               ring\<lparr>ringIDs := ids,
                    TLBs := (TLBs ring)[self := tlb
                      \<lparr>tlbBottomPort := bottom,
                       tlbMshr := (tlbMshr tlb)((0, virtualAddr) \<mapsto>
                                     entry\<lparr>reqToBottom := toBottom\<rparr>)\<rparr>]\<rparr>))"

text \<open>The escalation requests \<^verbatim>\<open>NotifyMiss\<close> builds for the queued requests \<open>rs\<close>, in
  order, the first with ID \<open>ids\<close>.\<close>

definition fetchReqs ::
  "VTimeInSec \<Rightarrow> port \<Rightarrow> endpoint \<Rightarrow> 64 word \<Rightarrow> nat \<Rightarrow> TranslationReq list \<Rightarrow> msg list" where
  "fetchReqs now bottom low virtualAddr ids rs =
     map (\<lambda>(i, r). TranslationReqMsg
            (buildTranslationReq i now (PortRef (portName bottom)) low
               (reqPID r) virtualAddr (reqDeviceID r)))
         (zip [ids..<ids + length rs] rs)"

definition SendProbeRequest :: "RingNoC \<Rightarrow> nat \<Rightarrow> ProbeRequest \<Rightarrow> error + RingNoC" where
  "SendProbeRequest ring self r =
     (case GetNextTLB ring (tlbID (TLBs ring ! self)) (Direction r) of
        Inl e \<Rightarrow> Inl e
      | Inr nextTLB \<Rightarrow>
          (case nextTLB of
             Some nextID \<Rightarrow>
               if TTL r > 0
               then Inr (ring\<lparr>conn := conn ring @
                           [ProbeRequestMsg (r\<lparr>TTL := TTL r - 1, Src := L1Ref (int self),
                                               Dst := L1Ref (int nextID),
                                               SendTime := engineNow ring,
                                               TrafficBytes := 64\<rparr>)]\<rparr>)
               else (case tlbAt ring (SourceTLB r) of
                       Inl e \<Rightarrow> Inl e
                     | Inr sourceTLB \<Rightarrow> Inr (NotifyMiss ring sourceTLB (VirtualAddr r)))
           | None \<Rightarrow>
               (case tlbAt ring (SourceTLB r) of
                  Inl e \<Rightarrow> Inl e
                | Inr sourceTLB \<Rightarrow> Inr (NotifyMiss ring sourceTLB (VirtualAddr r)))))"

definition InitiateProbing :: "RingNoC \<Rightarrow> nat \<Rightarrow> 64 word \<Rightarrow> RingNoC" where
  "InitiateProbing ring self virtualAddr =
     (let tlb = TLBs ring ! self;
          clockwiseReq =
            \<lparr>ID = ringIDs ring, Src = L1Ref (int self), Dst = NilPort,
             SendTime = engineNow ring, RecvTime = 0, TrafficClass = 0, TrafficBytes = 64,
             metaPID = 0, VirtualAddr = virtualAddr, TTL = 15, Direction = ''clockwise'',
             SourceTLB = tlbID tlb, reqSEID = SEID ring\<rparr>;
          counterclockwiseReq =
            \<lparr>ID = Suc (ringIDs ring), Src = L1Ref (int self), Dst = NilPort,
             SendTime = engineNow ring, RecvTime = 0, TrafficClass = 0, TrafficBytes = 64,
             metaPID = 0, VirtualAddr = virtualAddr, TTL = 4, Direction = ''counterclockwise'',
             SourceTLB = tlbID tlb, reqSEID = SEID ring\<rparr>
      in ring\<lparr>ringIDs := Suc (Suc (ringIDs ring)),
              TLBs := (TLBs ring)[self := tlb
                \<lparr>ProbeQueue := ProbeQueue tlb @ [clockwiseReq, counterclockwiseReq]\<rparr>]\<rparr>)"

text \<open>The scan of the prefetch buffer in \<^verbatim>\<open>ReceiveProbeRequest\<close>: the first valid page
  with the probed PID and address.\<close>

fun prefetchScan :: "page list \<Rightarrow> 32 word \<Rightarrow> 64 word \<Rightarrow> page option" where
  "prefetchScan [] pid vAddr = None"
| "prefetchScan (p # ps) pid vAddr =
     (if PID p = pid \<and> VAddr p = vAddr \<and> Valid p then Some p else prefetchScan ps pid vAddr)"

definition probeHit ::
  "RingNoC \<Rightarrow> nat \<Rightarrow> ProbeRequest \<Rightarrow> VTimeInSec \<Rightarrow> page \<Rightarrow> error + RingNoC" where
  "probeHit ring self r now pg =
     (case tlbAt ring (SourceTLB r) of
        Inl e \<Rightarrow> Inl e
      | Inr source \<Rightarrow>
          Inr (ring\<lparr>ringIDs := Suc (ringIDs ring),
                    conn := conn ring @
                      [ProbeResponseMsg
                         \<lparr>ID = ringIDs ring, Src = L1Ref (int self), Dst = L1Ref (int source),
                          SendTime = now, RecvTime = 0, TrafficClass = 0, TrafficBytes = 128,
                          metaPID = 0, rspVirtualAddr = VirtualAddr r, Page = Some pg,
                          rspSourceTLB = SourceTLB r, rspSEID = reqSEID r\<rparr>]\<rparr>))"

definition ReceiveProbeRequest ::
  "RingNoC \<Rightarrow> nat \<Rightarrow> ProbeRequest \<Rightarrow> VTimeInSec \<Rightarrow> error + RingNoC" where
  "ReceiveProbeRequest ring self r now =
     (let tlb = TLBs ring ! self;
          setID = vAddrToSetID tlb (VirtualAddr r)
      in if setID \<ge> length (Sets tlb) then Inl IndexOutOfRange
         else
           (case set_Lookup (Sets tlb ! setID) (metaPID r) (VirtualAddr r) of
              (wayID, pg, found) \<Rightarrow>
                if found \<and> Valid pg then probeHit ring self r now pg
                else
                  (case prefetchScan (PrefetchBuffer tlb) (metaPID r) (VirtualAddr r) of
                     Some p \<Rightarrow> probeHit ring self r now p
                   | None \<Rightarrow>
                       Inr (ring\<lparr>TLBs := (TLBs ring)[self := tlb
                              \<lparr>ProbeQueue := ProbeQueue tlb @ [r]\<rparr>]\<rparr>))))"

text \<open>The loop of \<^verbatim>\<open>ReceiveProbeResponse\<close> over the queued requests: one response per
  request; a refused \<^verbatim>\<open>Send\<close> is not retried.\<close>

fun respondLoop ::
  "VTimeInSec \<Rightarrow> page \<Rightarrow> TranslationReq list \<Rightarrow> nat \<times> port \<Rightarrow> nat \<times> port" where
  "respondLoop now pg [] st = st"
| "respondLoop now pg (r # rs) (ids, topP) =
     (let translationRsp = buildTranslationRsp ids now (PortRef (portName topP)) (Src r) (ID r) pg
      in respondLoop now pg rs (Suc ids, snd (port_Send topP (TranslationRspMsg translationRsp))))"

definition ReceiveProbeResponse ::
  "RingNoC \<Rightarrow> nat \<Rightarrow> ProbeResponse \<Rightarrow> VTimeInSec \<Rightarrow> error + RingNoC" where
  "ReceiveProbeResponse ring self rsp now =
     (let tlb = TLBs ring ! self in
      case Page rsp of
        None \<Rightarrow> Inr (NotifyMiss ring self (rspVirtualAddr rsp))
      | Some pg \<Rightarrow>
          if \<not> Valid pg then Inr (NotifyMiss ring self (rspVirtualAddr rsp))
          else
            (let setID = vAddrToSetID tlb (rspVirtualAddr rsp) in
             if setID \<ge> length (Sets tlb) then Inl IndexOutOfRange
             else
               (case set_Evict (Sets tlb ! setID) of
                  (_, False) \<Rightarrow> Inl (Panic ''failed to evict'')
                | (wayID, True) \<Rightarrow>
                    (let set' = set_Visit (set_Update (Sets tlb ! setID) wayID pg) wayID;
                         tlb1 = tlb\<lparr>Sets := (Sets tlb)[setID := set']\<rparr>
                     in case mshr_GetEntry (tlbMshr tlb1) (PID pg) (rspVirtualAddr rsp) of
                          None \<Rightarrow> Inr (ring\<lparr>TLBs := (TLBs ring)[self := tlb1]\<rparr>)
                        | Some entry \<Rightarrow>
                            (case respondLoop now pg (Requests entry)
                                    (ringIDs ring, tlbTopPort tlb1) of
                               (ids, topP) \<Rightarrow>
                                 Inr (ring\<lparr>ringIDs := ids,
                                           TLBs := (TLBs ring)[self := tlb1
                                             \<lparr>tlbTopPort := topP,
                                              tlbMshr := mshr_Remove (tlbMshr tlb1) (PID pg)
                                                           (rspVirtualAddr rsp)\<rparr>]\<rparr>))))))"

text \<open>\<^verbatim>\<open>DeliverMessage\<close>: any message that is neither a probe request nor a probe
  response falls through the type switch and the function returns \<^verbatim>\<open>false\<close>.\<close>

definition DeliverMessage :: "RingNoC \<Rightarrow> msg \<Rightarrow> VTimeInSec \<Rightarrow> error + (bool \<times> RingNoC)" where
  "DeliverMessage ring m now =
     (case m of
        ProbeRequestMsg r \<Rightarrow>
          (case tlbAt ring (SourceTLB r) of
             Inl e \<Rightarrow> Inl e
           | Inr tlb \<Rightarrow>
               (case ReceiveProbeRequest ring tlb (r\<lparr>RecvTime := now\<rparr>) now of
                  Inl e \<Rightarrow> Inl e
                | Inr ring' \<Rightarrow> Inr (True, ring')))
      | ProbeResponseMsg rsp \<Rightarrow>
          (case tlbAt ring (rspSourceTLB rsp) of
             Inl e \<Rightarrow> Inl e
           | Inr tlb \<Rightarrow>
               (case ReceiveProbeResponse ring tlb (rsp\<lparr>RecvTime := now\<rparr>) now of
                  Inl e \<Rightarrow> Inl e
                | Inr ring' \<Rightarrow> Inr (True, ring')))
      | _ \<Rightarrow> Inr (False, ring))"

text \<open>\<^verbatim>\<open>NewRingNoC\<close>: sixteen L1-TLBs, each the TLB the builder returns (a parameter
  here) with its ID, a prefetch buffer of 24 zero pages and an empty probe queue.\<close>

definition NewRingNoC :: "VTimeInSec \<Rightarrow> int \<Rightarrow> L1TLB \<Rightarrow> RingNoC" where
  "NewRingNoC now seID built =
     \<lparr>TLBs = map (\<lambda>i. built\<lparr>tlbID := int i, PrefetchBuffer := replicate 24 zero_page,
                             ProbeQueue := []\<rparr>) [0..<16],
      NumTLBs = 16, SEID = seID, engineNow = now, conn = [], ringIDs = 0\<rparr>"

section \<open>A concrete filter and concrete states, for evaluating the model\<close>

text \<open>An exact filter of bounded capacity: a list of keys; an insert into a full filter
  fails. It is one admissible instance of the filter parameter.\<close>

definition list_filter :: "(nat \<times> 8 word list list) filter_ops" where
  "list_filter =
     \<lparr>NewFilter = (\<lambda>cap. (cap, [])),
      Lookup = (\<lambda>f k. k \<in> set (snd f)),
      Insert = (\<lambda>f k. if length (snd f) < fst f then (True, (fst f, k # snd f)) else (False, f)),
      Reset = (\<lambda>f. (fst f, []))\<rparr>"

definition ex_page :: page where
  "ex_page = \<lparr>PID = 0, VAddr = 0x1000, PAddr = 0x2000, DeviceID = 1, Valid = True\<rparr>"

definition ex_req :: TranslationReq where
  "ex_req = buildTranslationReq 7 0 (PortRef ''L1.Bottom'') (PortRef ''GMMU.ToTop'') 0 0x1000 1"

text \<open>A GMMU of device 1 built with the defaults, its filter and page table holding
  \<open>ex_page\<close>, and \<open>ex_req\<close> waiting at its top port.\<close>

definition ex_gmmu :: "(nat \<times> 8 word list list) Comp" where
  "ex_gmmu =
     (Build list_filter (MakeBuilder\<lparr>builderDeviceID := 1\<rparr>) ''GMMU'')
       \<lparr>topPort := (newPort 4096 ''GMMU.ToTop'')\<lparr>incoming := [TranslationReqMsg ex_req], outCap := 4\<rparr>,
        bottomPort := (newPort 4096 ''GMMU.BottomPort'')\<lparr>outCap := 4\<rparr>,
        pageTable := [(0, 0x1000) \<mapsto> ex_page],
        cuckooFilter := (1000000, [encodeVAddrPID 0x1000 0])\<rparr>"

definition ex_remote_page :: page where
  "ex_remote_page = \<lparr>PID = 0, VAddr = 0x1000, PAddr = 0x5000, DeviceID = 2, Valid = True\<rparr>"

text \<open>The answer of the low module to a remote request for address \<open>0x1000\<close>; its own ID
  is 9.\<close>

definition ex_rsp :: TranslationRsp where
  "ex_rsp = buildTranslationRsp 9 3 (PortRef ''Low.Top'') (PortRef ''GMMU.BottomPort'') 8
              ex_remote_page"

text \<open>The GMMU after \<open>ex_req\<close> (ID 7) was escalated to the low module: the transaction
  is recorded in \<open>remoteMemReqs\<close>, the answer waits at the bottom port, and the filter
  (of capacity 1 here) is full.\<close>

definition ex_remote :: "(nat \<times> 8 word list list) Comp" where
  "ex_remote = ex_gmmu
     \<lparr>topPort := (newPort 4096 ''GMMU.ToTop'')\<lparr>outCap := 4\<rparr>,
      bottomPort := (newPort 4096 ''GMMU.BottomPort'')
         \<lparr>incoming := [TranslationRspMsg ex_rsp], outCap := 4\<rparr>,
      pageTable := [(0, 0x1000) \<mapsto> ex_remote_page],
      remoteMemReqs := [0x1000 \<mapsto> \<lparr>req = Some ex_req, page = zero_page, cycleLeft = 0\<rparr>],
      cuckooFilter := (1, [encodeVAddrPID 0x3000 0])\<rparr>"

text \<open>The same GMMU with a message of a foreign type at the head of both ports.\<close>

definition ex_stray :: "(nat \<times> 8 word list list) Comp" where
  "ex_stray = ex_gmmu
     \<lparr>topPort := (topPort ex_gmmu)\<lparr>incoming := [OtherMsg ''*mem.ReadReq'']\<rparr>,
      bottomPort := (bottomPort ex_gmmu)\<lparr>incoming := [OtherMsg ''*mem.ReadReq'']\<rparr>\<rparr>"

text \<open>The same GMMU with \<open>ex_req\<close> in the walking list, its latency elapsed, and a top
  sender without room.\<close>

definition ex_stalled :: "(nat \<times> 8 word list list) Comp" where
  "ex_stalled = ex_gmmu
     \<lparr>topPort := (newPort 4096 ''GMMU.ToTop'')\<lparr>outCap := 4\<rparr>,
      topSender := \<lparr>senderBuf = [], senderCap = 0\<rparr>,
      walkingTranslations := [\<lparr>req = Some ex_req, page = zero_page, cycleLeft = 0\<rparr>]\<rparr>"

text \<open>A GMMU built with the defaults, after the environment has put \<open>ex_req\<close> at its top
  port, and the state one tick later.\<close>

definition ex_env :: "(nat \<times> 8 word list list) Comp" where
  "ex_env = (Build list_filter MakeBuilder ''GMMU'')
     \<lparr>topPort := (newPort 4096 ''GMMU.ToTop'')\<lparr>incoming := [TranslationReqMsg ex_req], outCap := 4\<rparr>,
      bottomPort := (newPort 4096 ''GMMU.BottomPort'')\<lparr>outCap := 4\<rparr>,
      pageTable := Map.empty\<rparr>"

definition ex_after :: "(nat \<times> 8 word list list) Comp" where
  "ex_after = ex_env
     \<lparr>topPort := (newPort 4096 ''GMMU.ToTop'')\<lparr>outCap := 4\<rparr>,
      walkingTranslations := [\<lparr>req = Some ex_req, page = zero_page, cycleLeft = 9\<rparr>]\<rparr>"

text \<open>A ring as \<^verbatim>\<open>NewRingNoC\<close> builds it, from an L1-TLB of one set with four ways.\<close>

definition ex_tlb :: L1TLB where
  "ex_tlb =
     \<lparr>Sets = [\<lparr>blocks = replicate 4 None, visitList = [0, 1, 2, 3]\<rparr>],
      vAddrToSetID = (\<lambda>_. 0),
      tlbMshr = Map.empty,
      tlbTopPort = (newPort 4 ''L1.Top'')\<lparr>outCap := 4\<rparr>,
      tlbBottomPort = (newPort 4 ''L1.Bottom'')\<lparr>outCap := 4\<rparr>,
      tlbLowModule = PortRef ''L2.Top'',
      tlbID = 0, PrefetchBuffer = [], ProbeQueue = []\<rparr>"

definition ex_ring :: RingNoC where
  "ex_ring = NewRingNoC 0 0 ex_tlb"

text \<open>The same ring with \<open>ex_req\<close> waiting in the MSHR of TLB 0, before and after a first
  \<^verbatim>\<open>NotifyMiss\<close>.\<close>

definition ex_waiting :: RingNoC where
  "ex_waiting = ex_ring\<lparr>TLBs := (TLBs ex_ring)[0 := (TLBs ex_ring ! 0)
     \<lparr>tlbMshr := [(0, 0x1000) \<mapsto> \<lparr>Requests = [ex_req], reqToBottom = None\<rparr>]\<rparr>]\<rparr>"

definition ex_escalated :: RingNoC where
  "ex_escalated = NotifyMiss ex_waiting 0 0x1000"

definition ex_probe :: "string \<Rightarrow> int \<Rightarrow> ProbeRequest" where
  "ex_probe direction ttl =
     \<lparr>ID = 0, Src = L1Ref 0, Dst = NilPort, SendTime = 0, RecvTime = 0, TrafficClass = 0,
      TrafficBytes = 64, metaPID = 0, VirtualAddr = 0x1000, TTL = ttl, Direction = direction,
      SourceTLB = 0, reqSEID = 0\<rparr>"

section \<open>Properties of the GMMU\<close>

text \<open>
  C6. A translation request retrieved by \<^verbatim>\<open>parseFromTop\<close> (the in-flight budget is not
  used up and the request is at the head of the top port) whose key the Cuckoo filter
  reports, whose page the page table holds, and whose page belongs to this device: when
  the top sender has room, the response carrying that page is enqueued on the top sender
  in this call and the walking list is untouched; when the top sender is full, the
  request becomes a new walking transaction with \<open>cycleLeft = latency\<close>.
\<close>

theorem parseFromTop_fast_path:
  assumes budget: "int (length (walkingTranslations gmmu)) < maxRequestsInFlight gmmu"
    and head: "incoming (topPort gmmu) = TranslationReqMsg r # rest"
    and hit: "Lookup ops (cuckooFilter gmmu) (encodeVAddrPID (reqVAddr r) (reqPID r))"
    and found: "pageTable gmmu (reqPID r, reqVAddr r) = Some pg"
    and local: "DeviceID pg = deviceID gmmu"
  shows "parseFromTop ops now gmmu =
     (if CanSend (topSender gmmu) 1
      then Inr (True, gmmu
             \<lparr>topPort := (topPort gmmu)\<lparr>incoming := rest\<rparr>,
              topSender := (topSender gmmu)
                \<lparr>senderBuf := senderBuf (topSender gmmu) @
                   [TranslationRspMsg (buildTranslationRsp (idGenerator gmmu) now
                      (PortRef (portName (topPort gmmu))) (Src r) (ID r) pg)]\<rparr>,
              idGenerator := Suc (idGenerator gmmu)\<rparr>)
      else Inr (True, gmmu
             \<lparr>topPort := (topPort gmmu)\<lparr>incoming := rest\<rparr>,
              walkingTranslations := walkingTranslations gmmu @
                [\<lparr>req = Some r, page = zero_page, cycleLeft = latency gmmu\<rparr>]\<rparr>))"
proof -
  have retr: "port_Retrieve (topPort gmmu) =
                (Some (TranslationReqMsg r), (topPort gmmu)\<lparr>incoming := rest\<rparr>)"
    using head by (simp add: port_Retrieve_def)
  have find: "pt_Find (pageTable gmmu) (reqPID r) (reqVAddr r) = (pg, True)"
    using found by (simp add: pt_Find_def)
  show ?thesis
  proof (cases "CanSend (topSender gmmu) 1")
    case True
    then have "length (senderBuf (topSender gmmu)) < senderCap (topSender gmmu)"
      by (simp add: CanSend_def)
    then show ?thesis
      using budget retr find hit local True
      by (simp add: parseFromTop_def sender_Send_def Let_def)
  next
    case False
    then show ?thesis
      using budget retr find hit local
      by (simp add: parseFromTop_def startWalking_def Let_def)
  qed
qed

lemma ex_gmmu_simps:
  "walkingTranslations ex_gmmu = []"
  "maxRequestsInFlight ex_gmmu = 16"
  "latency ex_gmmu = 10"
  "deviceID ex_gmmu = 1"
  "incoming (topPort ex_gmmu) = [TranslationReqMsg ex_req]"
  "portName (topPort ex_gmmu) = ''GMMU.ToTop''"
  "pageTable ex_gmmu = [(0, 0x1000) \<mapsto> ex_page]"
  "cuckooFilter ex_gmmu = (1000000, [encodeVAddrPID 0x1000 0])"
  "topSender ex_gmmu = \<lparr>senderBuf = [], senderCap = 4096\<rparr>"
  "idGenerator ex_gmmu = 0"
  "remoteMemReqs ex_gmmu = Map.empty"
  "toRemoveFromPTW ex_gmmu = []"
  by (simp_all add: ex_gmmu_def Build_def MakeBuilder_def newPort_def Let_def)

lemma ex_req_simps:
  "reqPID ex_req = 0" "reqVAddr ex_req = 0x1000" "reqDeviceID ex_req = 1"
  "ID ex_req = 7" "Src ex_req = PortRef ''L1.Bottom''"
  by (simp_all add: ex_req_def buildTranslationReq_def)

theorem parseFromTop_fast_path_witness:
  "int (length (walkingTranslations ex_gmmu)) < maxRequestsInFlight ex_gmmu
   \<and> incoming (topPort ex_gmmu) = TranslationReqMsg ex_req # []
   \<and> Lookup list_filter (cuckooFilter ex_gmmu) (encodeVAddrPID (reqVAddr ex_req) (reqPID ex_req))
   \<and> pageTable ex_gmmu (reqPID ex_req, reqVAddr ex_req) = Some ex_page
   \<and> DeviceID ex_page = deviceID ex_gmmu
   \<and> CanSend (topSender ex_gmmu) 1
   \<and> parseFromTop list_filter 5 ex_gmmu =
       Inr (True, ex_gmmu
         \<lparr>topPort := (topPort ex_gmmu)\<lparr>incoming := []\<rparr>,
          topSender := \<lparr>senderBuf =
              [TranslationRspMsg (buildTranslationRsp 0 5 (PortRef ''GMMU.ToTop'')
                 (PortRef ''L1.Bottom'') 7 ex_page)], senderCap = 4096\<rparr>,
          idGenerator := 1\<rparr>)
   \<and> \<not> CanSend \<lparr>senderBuf = [], senderCap = 0\<rparr> 1
   \<and> parseFromTop list_filter 5 (ex_gmmu\<lparr>topSender := \<lparr>senderBuf = [], senderCap = 0\<rparr>\<rparr>) =
       Inr (True, ex_gmmu
         \<lparr>topSender := \<lparr>senderBuf = [], senderCap = 0\<rparr>,
          topPort := (topPort ex_gmmu)\<lparr>incoming := []\<rparr>,
          walkingTranslations := [\<lparr>req = Some ex_req, page = zero_page, cycleLeft = 10\<rparr>]\<rparr>)"
proof -
  have h1: "int (length (walkingTranslations ex_gmmu)) < maxRequestsInFlight ex_gmmu"
    by (simp add: ex_gmmu_simps)
  have h2: "incoming (topPort ex_gmmu) = TranslationReqMsg ex_req # []"
    by (simp add: ex_gmmu_simps)
  have h3: "Lookup list_filter (cuckooFilter ex_gmmu)
              (encodeVAddrPID (reqVAddr ex_req) (reqPID ex_req))"
    by (simp add: ex_gmmu_simps ex_req_simps list_filter_def)
  have h4: "pageTable ex_gmmu (reqPID ex_req, reqVAddr ex_req) = Some ex_page"
    by (simp add: ex_gmmu_simps ex_req_simps)
  have h5: "DeviceID ex_page = deviceID ex_gmmu"
    by (simp add: ex_gmmu_simps ex_page_def)
  have c1: "CanSend (topSender ex_gmmu) 1"
    by (simp add: ex_gmmu_simps CanSend_def)
  have c2: "\<not> CanSend \<lparr>senderBuf = [], senderCap = 0\<rparr> 1"
    by (simp add: CanSend_def)
  note a = parseFromTop_fast_path [OF h1 h2 h3 h4 h5, of 5]
  note b = parseFromTop_fast_path
             [of "ex_gmmu\<lparr>topSender := \<lparr>senderBuf = [], senderCap = 0\<rparr>\<rparr>" ex_req "[]"
                 list_filter ex_page 5]
  have r1: "parseFromTop list_filter 5 ex_gmmu =
       Inr (True, ex_gmmu
         \<lparr>topPort := (topPort ex_gmmu)\<lparr>incoming := []\<rparr>,
          topSender := \<lparr>senderBuf =
              [TranslationRspMsg (buildTranslationRsp 0 5 (PortRef ''GMMU.ToTop'')
                 (PortRef ''L1.Bottom'') 7 ex_page)], senderCap = 4096\<rparr>,
          idGenerator := 1\<rparr>)"
    using a c1 by (simp add: ex_gmmu_simps ex_req_simps)
  have r2: "parseFromTop list_filter 5 (ex_gmmu\<lparr>topSender := \<lparr>senderBuf = [], senderCap = 0\<rparr>\<rparr>) =
       Inr (True, ex_gmmu
         \<lparr>topSender := \<lparr>senderBuf = [], senderCap = 0\<rparr>,
          topPort := (topPort ex_gmmu)\<lparr>incoming := []\<rparr>,
          walkingTranslations := [\<lparr>req = Some ex_req, page = zero_page, cycleLeft = 10\<rparr>]\<rparr>)"
    using b h1 h2 h3 h4 h5 c2 by (simp add: ex_gmmu_simps ex_req_simps)
  show ?thesis using h1 h2 h3 h4 h5 c1 c2 r1 r2 by blast
qed

text \<open>
  C10. \<^verbatim>\<open>handleTranslationRsp\<close> relies on the address of the returned page being a key
  of \<open>remoteMemReqs\<close>. With the key present (and the stored transaction holding its
  request, the top sender having the room \<^verbatim>\<open>fetchFromBottom\<close> has checked): the page
  table is updated with the returned page, the key is inserted into the Cuckoo filter,
  with one \<^verbatim>\<open>Reset\<close> and one more insert when the first insert fails, a response is
  enqueued for the stored requester, and the entry is deleted. With the key absent the
  lookup yields the zero transaction, whose request is nil, and the call faults. (Every
  transaction recorded in a reachable state holds its request: \<open>reachable_held\<close>.)
\<close>

theorem handleTranslationRsp_needs_recorded_request:
  "(\<forall>t r. remoteMemReqs gmmu (VAddr (rspPage response)) = Some t \<longrightarrow> req t = Some r \<longrightarrow>
           CanSend (topSender gmmu) 1 \<longrightarrow>
      handleTranslationRsp ops now response gmmu =
        Inr (True, gmmu
          \<lparr>pageTable := (pageTable gmmu)
               ((PID (rspPage response), VAddr (rspPage response)) \<mapsto> rspPage response),
           cuckooFilter :=
             (case Insert ops (cuckooFilter gmmu)
                     (encodeVAddrPID (VAddr (rspPage response)) (PID (rspPage response))) of
                (True, f1) \<Rightarrow> f1
              | (False, f1) \<Rightarrow>
                  snd (Insert ops (Reset ops f1)
                         (encodeVAddrPID (VAddr (rspPage response)) (PID (rspPage response))))),
           topSender := (topSender gmmu)
             \<lparr>senderBuf := senderBuf (topSender gmmu) @
                [TranslationRspMsg (buildTranslationRsp (idGenerator gmmu) now
                   (PortRef (portName (topPort gmmu))) (Src r) (ID response)
                   (rspPage response))]\<rparr>,
           idGenerator := Suc (idGenerator gmmu),
           remoteMemReqs := (remoteMemReqs gmmu)(VAddr (rspPage response) := None)\<rparr>))
   \<and> (remoteMemReqs gmmu (VAddr (rspPage response)) = None \<longrightarrow>
        handleTranslationRsp ops now response gmmu = Inl NilDereference)"
proof (intro conjI allI impI)
  fix t r
  assume present: "remoteMemReqs gmmu (VAddr (rspPage response)) = Some t"
    and stored: "req t = Some r"
    and room: "CanSend (topSender gmmu) 1"
  from room have "length (senderBuf (topSender gmmu)) < senderCap (topSender gmmu)"
    by (simp add: CanSend_def)
  then show "handleTranslationRsp ops now response gmmu =
        Inr (True, gmmu
          \<lparr>pageTable := (pageTable gmmu)
               ((PID (rspPage response), VAddr (rspPage response)) \<mapsto> rspPage response),
           cuckooFilter :=
             (case Insert ops (cuckooFilter gmmu)
                     (encodeVAddrPID (VAddr (rspPage response)) (PID (rspPage response))) of
                (True, f1) \<Rightarrow> f1
              | (False, f1) \<Rightarrow>
                  snd (Insert ops (Reset ops f1)
                         (encodeVAddrPID (VAddr (rspPage response)) (PID (rspPage response))))),
           topSender := (topSender gmmu)
             \<lparr>senderBuf := senderBuf (topSender gmmu) @
                [TranslationRspMsg (buildTranslationRsp (idGenerator gmmu) now
                   (PortRef (portName (topPort gmmu))) (Src r) (ID response)
                   (rspPage response))]\<rparr>,
           idGenerator := Suc (idGenerator gmmu),
           remoteMemReqs := (remoteMemReqs gmmu)(VAddr (rspPage response) := None)\<rparr>)"
    using present stored
    by (simp add: handleTranslationRsp_def sender_Send_def pt_Update_def Let_def
          split: prod.splits bool.splits)
next
  assume "remoteMemReqs gmmu (VAddr (rspPage response)) = None"
  then show "handleTranslationRsp ops now response gmmu = Inl NilDereference"
    by (simp add: handleTranslationRsp_def zero_transaction_def Let_def split: prod.splits)
qed

lemma ex_rsp_simps:
  "ID ex_rsp = 9" "rspPage ex_rsp = ex_remote_page" "RspTo ex_rsp = 8"
  by (simp_all add: ex_rsp_def buildTranslationRsp_def)

lemma ex_remote_page_simps:
  "PID ex_remote_page = 0" "VAddr ex_remote_page = 0x1000" "DeviceID ex_remote_page = 2"
  by (simp_all add: ex_remote_page_def)

lemma ex_remote_simps:
  "remoteMemReqs ex_remote = [0x1000 \<mapsto> \<lparr>req = Some ex_req, page = zero_page, cycleLeft = 0\<rparr>]"
  "topSender ex_remote = \<lparr>senderBuf = [], senderCap = 4096\<rparr>"
  "cuckooFilter ex_remote = (1, [encodeVAddrPID 0x3000 0])"
  "pageTable ex_remote = [(0, 0x1000) \<mapsto> ex_remote_page]"
  "portName (topPort ex_remote) = ''GMMU.ToTop''"
  "idGenerator ex_remote = 0"
  "incoming (bottomPort ex_remote) = [TranslationRspMsg ex_rsp]"
  by (simp_all add: ex_remote_def ex_gmmu_simps newPort_def)

theorem handleTranslationRsp_needs_recorded_request_witness:
  "remoteMemReqs ex_remote (VAddr (rspPage ex_rsp)) =
       Some \<lparr>req = Some ex_req, page = zero_page, cycleLeft = 0\<rparr>
   \<and> CanSend (topSender ex_remote) 1
   \<and> handleTranslationRsp list_filter 5 ex_rsp ex_remote =
       Inr (True, ex_remote
         \<lparr>pageTable := [(0, 0x1000) \<mapsto> ex_remote_page],
          cuckooFilter := (1, [encodeVAddrPID 0x1000 0]),
          topSender := \<lparr>senderBuf =
             [TranslationRspMsg (buildTranslationRsp 0 5 (PortRef ''GMMU.ToTop'')
                (PortRef ''L1.Bottom'') 9 ex_remote_page)], senderCap = 4096\<rparr>,
          idGenerator := 1,
          remoteMemReqs := Map.empty\<rparr>)
   \<and> remoteMemReqs ex_gmmu (VAddr (rspPage ex_rsp)) = None
   \<and> handleTranslationRsp list_filter 5 ex_rsp ex_gmmu = Inl NilDereference"
proof -
  have h1: "remoteMemReqs ex_remote (VAddr (rspPage ex_rsp)) =
              Some \<lparr>req = Some ex_req, page = zero_page, cycleLeft = 0\<rparr>"
    by (simp add: ex_remote_simps ex_rsp_simps ex_remote_page_simps)
  have h2: "req \<lparr>req = Some ex_req, page = zero_page, cycleLeft = 0\<rparr> = Some ex_req"
    by simp
  have h3: "CanSend (topSender ex_remote) 1"
    by (simp add: ex_remote_simps CanSend_def)
  have h4: "remoteMemReqs ex_gmmu (VAddr (rspPage ex_rsp)) = None"
    by (simp add: ex_gmmu_simps)
  note t = handleTranslationRsp_needs_recorded_request [of ex_remote ex_rsp list_filter 5]
  note u = handleTranslationRsp_needs_recorded_request [of ex_gmmu ex_rsp list_filter 5]
  have r1: "handleTranslationRsp list_filter 5 ex_rsp ex_remote =
       Inr (True, ex_remote
         \<lparr>pageTable := [(0, 0x1000) \<mapsto> ex_remote_page],
          cuckooFilter := (1, [encodeVAddrPID 0x1000 0]),
          topSender := \<lparr>senderBuf =
             [TranslationRspMsg (buildTranslationRsp 0 5 (PortRef ''GMMU.ToTop'')
                (PortRef ''L1.Bottom'') 9 ex_remote_page)], senderCap = 4096\<rparr>,
          idGenerator := 1,
          remoteMemReqs := Map.empty\<rparr>)"
    using t [THEN conjunct1, rule_format, OF h1 h2 h3]
    by (simp add: ex_remote_simps ex_rsp_simps ex_remote_page_simps ex_req_simps list_filter_def)
  have r2: "handleTranslationRsp list_filter 5 ex_rsp ex_gmmu = Inl NilDereference"
    using u [THEN conjunct2, rule_format, OF h4] .
  show ?thesis using h1 h3 h4 r1 r2 by blast
qed

text \<open>
  C2. The remote path does not return the client's request ID. For the recorded request
  \<open>ex_req\<close> (ID 7) and the answer \<open>ex_rsp\<close> of the low module (ID 9),
  \<^verbatim>\<open>handleTranslationRsp\<close> enqueues for the client a response whose \<open>RspTo\<close> is 9, the ID
  of the answer, where the fast path and the page walk (\<open>doPageWalkHit_RspTo\<close>) and the
  ring hit (\<open>respondLoop_RspTo\<close>) write the ID of the client's request.
\<close>

theorem handleTranslationRsp_RspTo_is_answer_ID:
  "handleTranslationRsp list_filter 5 ex_rsp ex_remote =
     Inr (True, ex_remote
       \<lparr>pageTable := [(0, 0x1000) \<mapsto> ex_remote_page],
        cuckooFilter := (1, [encodeVAddrPID 0x1000 0]),
        topSender := \<lparr>senderBuf =
           [TranslationRspMsg (buildTranslationRsp 0 5 (PortRef ''GMMU.ToTop'')
              (PortRef ''L1.Bottom'') 9 ex_remote_page)], senderCap = 4096\<rparr>,
        idGenerator := 1,
        remoteMemReqs := Map.empty\<rparr>)
   \<and> RspTo (buildTranslationRsp 0 5 (PortRef ''GMMU.ToTop'') (PortRef ''L1.Bottom'') 9
              ex_remote_page) = 9
   \<and> ID ex_req = 7 \<and> ID ex_rsp = 9"
  by (simp add: handleTranslationRsp_def ex_remote_def ex_gmmu_simps ex_rsp_simps
        ex_remote_page_simps ex_req_simps list_filter_def sender_Send_def pt_Update_def
        newPort_def buildTranslationRsp_def Let_def)

lemma doPageWalkHit_RspTo:
  assumes "doPageWalkHit now i gmmu = Inr (True, g')"
    and "req (walkingTranslations gmmu ! i) = Some r"
  shows "\<exists>rsp. senderBuf (topSender g') = senderBuf (topSender gmmu) @ [TranslationRspMsg rsp]
           \<and> RspTo rsp = ID r \<and> Dst rsp = Src r
           \<and> rspPage rsp = page (walkingTranslations gmmu ! i)"
  using assms
  by (auto simp: doPageWalkHit_def sender_Send_def buildTranslationRsp_def Let_def
        split: if_splits)

lemma respondLoop_RspTo:
  "\<exists>sent. outgoing (snd (respondLoop now pg rs (ids, p))) = outgoing p @ sent
      \<and> (\<forall>m \<in> set sent. \<exists>rsp r. m = TranslationRspMsg rsp \<and> r \<in> set rs
             \<and> RspTo rsp = ID r \<and> Dst rsp = Src r \<and> rspPage rsp = pg)"
proof (induction rs arbitrary: ids p)
  case Nil
  then show ?case by simp
next
  case (Cons r rs)
  let ?m = "TranslationRspMsg (buildTranslationRsp ids now (PortRef (portName p)) (Src r) (ID r) pg)"
  let ?p' = "snd (port_Send p ?m)"
  obtain sent where s: "outgoing (snd (respondLoop now pg rs (Suc ids, ?p'))) = outgoing ?p' @ sent"
    and all: "\<forall>m \<in> set sent. \<exists>rsp r. m = TranslationRspMsg rsp \<and> r \<in> set rs
             \<and> RspTo rsp = ID r \<and> Dst rsp = Src r \<and> rspPage rsp = pg"
    using Cons.IH [of "Suc ids" ?p'] by blast
  have "outgoing ?p' = outgoing p \<or> outgoing ?p' = outgoing p @ [?m]"
    by (simp add: port_Send_def)
  then show ?case
  proof
    assume "outgoing ?p' = outgoing p"
    then have "outgoing (snd (respondLoop now pg (r # rs) (ids, p))) = outgoing p @ sent"
      using s by (simp add: Let_def)
    moreover have "\<forall>m \<in> set sent. \<exists>rsp r'. m = TranslationRspMsg rsp \<and> r' \<in> set (r # rs)
             \<and> RspTo rsp = ID r' \<and> Dst rsp = Src r' \<and> rspPage rsp = pg"
      using all by fastforce
    ultimately show ?thesis by blast
  next
    assume "outgoing ?p' = outgoing p @ [?m]"
    then have "outgoing (snd (respondLoop now pg (r # rs) (ids, p))) = outgoing p @ (?m # sent)"
      using s by (simp add: Let_def)
    moreover have "\<forall>m \<in> set (?m # sent). \<exists>rsp r'. m = TranslationRspMsg rsp \<and> r' \<in> set (r # rs)
             \<and> RspTo rsp = ID r' \<and> Dst rsp = Src r' \<and> rspPage rsp = pg"
      using all by (fastforce simp: buildTranslationRsp_def)
    ultimately show ?thesis by blast
  qed
qed

text \<open>
  C8 (as amended). At the GMMU a message of an unsupported type, once retrieved, ends the
  run with a panic whose text names the type: at the top port anything but a translation
  request, at the bottom port anything but a translation response. At the ring
  dispatcher a message that is neither a probe request nor a probe response is not
  fatal: \<^verbatim>\<open>DeliverMessage\<close> returns \<^verbatim>\<open>false\<close> and leaves the ring as it was.
\<close>

theorem unsupported_message_handling:
  "(int (length (walkingTranslations gmmu)) < maxRequestsInFlight gmmu
      \<and> incoming (topPort gmmu) = m # rest \<and> (\<forall>r. m \<noteq> TranslationReqMsg r) \<longrightarrow>
        parseFromTop ops now gmmu =
          Inl (Panic (''gmmu cannot handle request of type '' @ typeOf m)))
   \<and> (CanSend (topSender gmmu) 1
      \<and> incoming (bottomPort gmmu) = m # rest \<and> (\<forall>r. m \<noteq> TranslationRspMsg r) \<longrightarrow>
        fetchFromBottom ops now gmmu =
          Inl (Panic (''gmmu canot handle request of type '' @ typeOf m)))
   \<and> ((\<forall>r. m \<noteq> ProbeRequestMsg r) \<and> (\<forall>r. m \<noteq> ProbeResponseMsg r) \<longrightarrow>
        DeliverMessage ring m now = Inr (False, ring))"
  by (cases m) (auto simp: parseFromTop_def fetchFromBottom_def DeliverMessage_def
                  port_Retrieve_def)

theorem unsupported_message_handling_witness:
  "int (length (walkingTranslations ex_stray)) < maxRequestsInFlight ex_stray
   \<and> CanSend (topSender ex_stray) 1
   \<and> incoming (topPort ex_stray) = [OtherMsg ''*mem.ReadReq'']
   \<and> incoming (bottomPort ex_stray) = [OtherMsg ''*mem.ReadReq'']
   \<and> parseFromTop list_filter 5 ex_stray =
        Inl (Panic ''gmmu cannot handle request of type *mem.ReadReq'')
   \<and> fetchFromBottom list_filter 5 ex_stray =
        Inl (Panic ''gmmu canot handle request of type *mem.ReadReq'')
   \<and> DeliverMessage ex_ring (OtherMsg ''*mem.ReadReq'') 5 = Inr (False, ex_ring)"
proof -
  have h1: "int (length (walkingTranslations ex_stray)) < maxRequestsInFlight ex_stray"
    by (simp add: ex_stray_def ex_gmmu_simps)
  have h2: "CanSend (topSender ex_stray) 1"
    by (simp add: ex_stray_def ex_gmmu_simps CanSend_def)
  have h3: "incoming (topPort ex_stray) = [OtherMsg ''*mem.ReadReq'']"
    by (simp add: ex_stray_def)
  have h4: "incoming (bottomPort ex_stray) = [OtherMsg ''*mem.ReadReq'']"
    by (simp add: ex_stray_def)
  note t = unsupported_message_handling
             [of ex_stray "OtherMsg ''*mem.ReadReq''" "[]" list_filter 5 ex_ring]
  have r1: "parseFromTop list_filter 5 ex_stray =
              Inl (Panic ''gmmu cannot handle request of type *mem.ReadReq'')"
    using t h1 h3 by simp
  have r2: "fetchFromBottom list_filter 5 ex_stray =
              Inl (Panic ''gmmu canot handle request of type *mem.ReadReq'')"
    using t h2 h4 by simp
  have r3: "DeliverMessage ex_ring (OtherMsg ''*mem.ReadReq'') 5 = Inr (False, ex_ring)"
    using t by simp
  show ?thesis using h1 h2 h3 h4 r1 r2 r3 by blast
qed

text \<open>The claim as stated fails at the ring dispatcher: a message of another type is
  dropped, the call returns \<^verbatim>\<open>false\<close>, and nothing aborts.\<close>

theorem DeliverMessage_drops_unsupported:
  "DeliverMessage ex_ring (OtherMsg ''*mem.ReadReq'') 5 = Inr (False, ex_ring)
   \<and> DeliverMessage ex_ring (TranslationReqMsg ex_req) 5 = Inr (False, ex_ring)"
  by (simp add: DeliverMessage_def)

subsection \<open>The in-flight budget\<close>

lemma parseFromTop_bound:
  assumes "parseFromTop ops now g = Inr (b, g')"
  shows "maxRequestsInFlight g' = maxRequestsInFlight g
       \<and> (int (length (walkingTranslations g)) \<le> maxRequestsInFlight g \<longrightarrow>
            int (length (walkingTranslations g')) \<le> maxRequestsInFlight g)"
  using assms
  by (auto simp: parseFromTop_def startWalking_def sender_Send_def Let_def
        split: if_splits prod.splits option.splits msg.splits sum.splits)

lemma walkStep_frame:
  assumes "walkStep now i mp g = Inr (b, g')"
  shows "deviceID g' = deviceID g \<and> pageTable g' = pageTable g
       \<and> maxRequestsInFlight g' = maxRequestsInFlight g \<and> latency g' = latency g
       \<and> topPort g' = topPort g
       \<and> senderCap (topSender g') = senderCap (topSender g)"
  using assms
  by (auto simp: walkStep_def finalizePageWalk_def doPageWalkHit_def processRemoteMemReq_def
        sender_Send_def port_Send_def Let_def
        split: if_splits option.splits prod.splits sum.splits)

lemma walkLoop_frame:
  "walkLoop now i mp g = Inr (b, g') \<Longrightarrow>
     deviceID g' = deviceID g \<and> pageTable g' = pageTable g
       \<and> maxRequestsInFlight g' = maxRequestsInFlight g \<and> latency g' = latency g
       \<and> topPort g' = topPort g
       \<and> senderCap (topSender g') = senderCap (topSender g)
       \<and> length (walkingTranslations g') = length (walkingTranslations g)"
proof (induction now i mp g rule: walkLoop.induct)
  case (1 now i mp g)
  show ?case
  proof (cases "i < length (walkingTranslations g)")
    case False
    with "1.prems" show ?thesis by (simp add: walkLoop.simps [of now i mp g])
  next
    case True
    then obtain mp1 g1 where st: "walkStep now i mp g = Inr (mp1, g1)"
      and rest: "walkLoop now (Suc i) mp1 g1 = Inr (b, g')"
      using "1.prems"
      by (auto simp: walkLoop.simps [of now i mp g] split: sum.splits)
    from "1.IH" [OF True st refl rest] walkStep_frame [OF st] walkStep_length [OF st]
    show ?thesis by simp
  qed
qed

lemma compact_length: "length (compact g i ts) \<le> length ts"
  by (induction ts arbitrary: i) (auto simp: le_SucI)

lemma walkPageTable_bound:
  assumes "walkPageTable now g = Inr (b, g')"
  shows "maxRequestsInFlight g' = maxRequestsInFlight g
       \<and> length (walkingTranslations g') \<le> length (walkingTranslations g)"
proof -
  obtain g1 where l: "walkLoop now 0 False g = Inr (b, g1)"
    and g': "g' = g1\<lparr>walkingTranslations := compact g1 0 (walkingTranslations g1),
                     toRemoveFromPTW := []\<rparr>"
    using assms by (auto simp: walkPageTable_def split: sum.splits)
  from walkLoop_frame [OF l] compact_length [of g1 0 "walkingTranslations g1"] g'
  show ?thesis by simp
qed

lemma fetchFromBottom_bound:
  assumes "fetchFromBottom ops now g = Inr (b, g')"
  shows "maxRequestsInFlight g' = maxRequestsInFlight g
       \<and> walkingTranslations g' = walkingTranslations g"
  using assms
  by (auto simp: fetchFromBottom_def handleTranslationRsp_def sender_Send_def Let_def
        split: if_splits prod.splits option.splits msg.splits sum.splits)

lemma Tick_bound:
  assumes "Tick ops now g = Inr (b, g')"
    and "int (length (walkingTranslations g)) \<le> maxRequestsInFlight g"
  shows "maxRequestsInFlight g' = maxRequestsInFlight g
       \<and> int (length (walkingTranslations g')) \<le> maxRequestsInFlight g'"
proof -
  obtain p0 ts tp where st: "sender_Tick (topSender g) (topPort g) = (p0, ts, tp)"
    by (cases "sender_Tick (topSender g) (topPort g)") auto
  let ?g0 = "g\<lparr>topSender := ts, topPort := tp\<rparr>"
  obtain p1 g1 p2 g2 p3 where a: "parseFromTop ops now ?g0 = Inr (p1, g1)"
    and b: "walkPageTable now g1 = Inr (p2, g2)"
    and c: "fetchFromBottom ops now g2 = Inr (p3, g')"
    using assms(1) st by (auto simp: Tick_def split: sum.splits prod.splits)
  from parseFromTop_bound [OF a] walkPageTable_bound [OF b] fetchFromBottom_bound [OF c] assms(2)
  show ?thesis by simp
qed

lemma Build_bound:
  "0 \<le> maxNumReqInFlight b \<Longrightarrow>
     int (length (walkingTranslations (Build ops b name))) \<le> maxRequestsInFlight (Build ops b name)"
  by (simp add: Build_def Let_def)

lemma reachable_bound:
  assumes "reachable ops b name g" and "0 \<le> maxNumReqInFlight b"
  shows "int (length (walkingTranslations g)) \<le> maxRequestsInFlight g"
  using assms
proof (induction rule: reachable.induct)
  case built
  then show ?case by (rule Build_bound)
next
  case (ticked g now progress g')
  then show ?case using Tick_bound by blast
next
  case (environment g tp bp pt)
  then show ?case by simp
qed

text \<open>
  C3 (as amended). For a GMMU built with a budget \<open>maxNumReqInFlight\<close> that is not
  negative, the walking list is never longer than \<open>maxRequestsInFlight\<close>, in every
  reachable state. \<^verbatim>\<open>parseFromTop\<close> stalls (returns \<^verbatim>\<open>false\<close>, state unchanged) when the
  list has reached the budget; \<^verbatim>\<open>walkPageTable\<close> never lengthens the list and
  \<^verbatim>\<open>fetchFromBottom\<close> leaves it as it is.
\<close>

theorem walking_list_within_budget:
  "(reachable ops b name g \<and> 0 \<le> maxNumReqInFlight b \<longrightarrow>
      int (length (walkingTranslations g)) \<le> maxRequestsInFlight g)
   \<and> (int (length (walkingTranslations g)) \<ge> maxRequestsInFlight g \<longrightarrow>
        parseFromTop ops now g = Inr (False, g))
   \<and> (walkPageTable now g = Inr (p, g1) \<longrightarrow>
        length (walkingTranslations g1) \<le> length (walkingTranslations g))
   \<and> (fetchFromBottom ops now g = Inr (p, g2) \<longrightarrow>
        walkingTranslations g2 = walkingTranslations g)"
proof (intro conjI impI)
  assume "reachable ops b name g \<and> 0 \<le> maxNumReqInFlight b"
  then show "int (length (walkingTranslations g)) \<le> maxRequestsInFlight g"
    using reachable_bound by blast
next
  assume "int (length (walkingTranslations g)) \<ge> maxRequestsInFlight g"
  then show "parseFromTop ops now g = Inr (False, g)"
    by (simp add: parseFromTop_def)
next
  assume "walkPageTable now g = Inr (p, g1)"
  then show "length (walkingTranslations g1) \<le> length (walkingTranslations g)"
    using walkPageTable_bound by blast
next
  assume "fetchFromBottom ops now g = Inr (p, g2)"
  then show "walkingTranslations g2 = walkingTranslations g"
    using fetchFromBottom_bound by blast
qed

lemma ex_tick: "Tick list_filter 5 ex_env = Inr (True, ex_after)"
  by (simp add: Tick_def sender_Tick_def parseFromTop_def port_Retrieve_def startWalking_def
        walkPageTable_def walkLoop.simps walkStep_def toRemove_def fetchFromBottom_def
        CanSend_def list_filter_def
        ex_env_def ex_after_def Build_def MakeBuilder_def newPort_def Let_def)

lemma ex_after_reachable: "reachable list_filter MakeBuilder ''GMMU'' ex_after"
proof -
  have "reachable list_filter MakeBuilder ''GMMU'' ex_env"
    unfolding ex_env_def by (rule reachable.environment) (rule reachable.built)
  then show ?thesis using ex_tick by (rule reachable.ticked)
qed

lemma ex_after_simps:
  "walkingTranslations ex_after = [\<lparr>req = Some ex_req, page = zero_page, cycleLeft = 9\<rparr>]"
  "maxRequestsInFlight ex_after = 16"
  "incoming (bottomPort ex_after) = []"
  "topSender ex_after = \<lparr>senderBuf = [], senderCap = 4096\<rparr>"
  by (simp_all add: ex_after_def ex_env_def Build_def MakeBuilder_def newPort_def Let_def)

lemma ex_stalled_walk:
  "walkPageTable 5 ex_stalled =
     Inr (False, ex_stalled
       \<lparr>walkingTranslations := [\<lparr>req = Some ex_req, page = ex_page, cycleLeft = 0\<rparr>]\<rparr>)"
  by (simp add: walkPageTable_def walkLoop.simps walkStep_def finalizePageWalk_def
        doPageWalkHit_def CanSend_def pt_Find_def toRemove_def
        ex_stalled_def ex_gmmu_def Build_def MakeBuilder_def newPort_def ex_req_simps
        ex_page_def zero_page_def Let_def)

theorem walking_list_within_budget_witness:
  "(0::int) \<le> maxNumReqInFlight MakeBuilder
   \<and> reachable list_filter MakeBuilder ''GMMU'' ex_after
   \<and> length (walkingTranslations ex_after) = 1 \<and> maxRequestsInFlight ex_after = 16
   \<and> int (length (walkingTranslations ex_after)) \<le> maxRequestsInFlight ex_after
   \<and> parseFromTop list_filter 5 (ex_after\<lparr>maxRequestsInFlight := 1\<rparr>) =
        Inr (False, ex_after\<lparr>maxRequestsInFlight := 1\<rparr>)
   \<and> walkPageTable 5 ex_stalled =
        Inr (False, ex_stalled
          \<lparr>walkingTranslations := [\<lparr>req = Some ex_req, page = ex_page, cycleLeft = 0\<rparr>]\<rparr>)
   \<and> fetchFromBottom list_filter 5 ex_after = Inr (False, ex_after)"
proof -
  have h1: "(0::int) \<le> maxNumReqInFlight MakeBuilder"
    by (simp add: MakeBuilder_def)
  have h2: "reachable list_filter MakeBuilder ''GMMU'' ex_after"
    by (rule ex_after_reachable)
  have h3: "int (length (walkingTranslations (ex_after\<lparr>maxRequestsInFlight := 1\<rparr>)))
              \<ge> maxRequestsInFlight (ex_after\<lparr>maxRequestsInFlight := 1\<rparr>)"
    by (simp add: ex_after_simps)
  have h4: "fetchFromBottom list_filter 5 ex_after = Inr (False, ex_after)"
    by (simp add: fetchFromBottom_def port_Retrieve_def ex_after_simps CanSend_def)
  have r1: "int (length (walkingTranslations ex_after)) \<le> maxRequestsInFlight ex_after"
    using walking_list_within_budget
            [where ops = list_filter and b = MakeBuilder and name = "''GMMU''" and g = ex_after]
          h1 h2
    by simp
  have r2: "parseFromTop list_filter 5 (ex_after\<lparr>maxRequestsInFlight := 1\<rparr>) =
              Inr (False, ex_after\<lparr>maxRequestsInFlight := 1\<rparr>)"
    using walking_list_within_budget
            [where ops = list_filter and g = "ex_after\<lparr>maxRequestsInFlight := 1\<rparr>" and now = 5]
          h3
    by simp
  have r3: "length (walkingTranslations ex_after) = 1 \<and> maxRequestsInFlight ex_after = 16"
    by (simp add: ex_after_simps)
  show ?thesis using h1 h2 h4 r1 r2 r3 ex_stalled_walk by blast
qed

text \<open>The claim as stated fails for a negative budget, which \<^verbatim>\<open>Build\<close> accepts (it
  replaces only 0 by 16): the state it returns has an empty walking list and
  \<open>maxRequestsInFlight = -1\<close>.\<close>

theorem negative_budget_exceeded_at_build:
  "length (walkingTranslations
             (Build list_filter (MakeBuilder\<lparr>maxNumReqInFlight := - 1\<rparr>) ''GMMU'')) = 0
   \<and> maxRequestsInFlight
        (Build list_filter (MakeBuilder\<lparr>maxNumReqInFlight := - 1\<rparr>) ''GMMU'') = - 1
   \<and> \<not> int (length (walkingTranslations
                     (Build list_filter (MakeBuilder\<lparr>maxNumReqInFlight := - 1\<rparr>) ''GMMU'')))
         \<le> maxRequestsInFlight
             (Build list_filter (MakeBuilder\<lparr>maxNumReqInFlight := - 1\<rparr>) ''GMMU'')"
  by (simp add: Build_def MakeBuilder_def Let_def)

subsection \<open>What holds in every reachable state\<close>

text \<open>In every reachable state each recorded transaction holds its request and the
  removal list is empty: \<^verbatim>\<open>startWalking\<close> stores a request it was given,
  \<^verbatim>\<open>processRemoteMemReq\<close> records a transaction whose request it has just read, and
  \<^verbatim>\<open>walkPageTable\<close> clears the removal list before it returns.\<close>

lemma parseFromTop_held:
  assumes "parseFromTop ops now g = Inr (b, g')" and "requestsHeld g"
  shows "requestsHeld g' \<and> toRemoveFromPTW g' = toRemoveFromPTW g"
  using assms
  by (auto simp: requestsHeld_def parseFromTop_def startWalking_def sender_Send_def Let_def
        split: if_splits prod.splits option.splits msg.splits sum.splits)

lemma walkStep_held:
  assumes st: "walkStep now i mp g = Inr (b, g')" and i: "i < length (walkingTranslations g)"
    and held: "requestsHeld g"
  shows "requestsHeld g'"
  using assms
  by (auto simp: requestsHeld_def all_set_conv_all_nth nth_list_update
        walkStep_def finalizePageWalk_def doPageWalkHit_def
        processRemoteMemReq_def sender_Send_def port_Send_def Let_def
        split: if_splits option.splits prod.splits sum.splits)

lemma walkLoop_held:
  "walkLoop now i mp g = Inr (b, g') \<Longrightarrow> requestsHeld g \<Longrightarrow> requestsHeld g'"
proof (induction now i mp g rule: walkLoop.induct)
  case (1 now i mp g)
  show ?case
  proof (cases "i < length (walkingTranslations g)")
    case False
    with "1.prems" show ?thesis by (simp add: walkLoop.simps [of now i mp g])
  next
    case True
    then obtain mp1 g1 where st: "walkStep now i mp g = Inr (mp1, g1)"
      and rest: "walkLoop now (Suc i) mp1 g1 = Inr (b, g')"
      using "1.prems"
      by (auto simp: walkLoop.simps [of now i mp g] split: sum.splits)
    from "1.IH" [OF True st refl rest] walkStep_held [OF st True "1.prems"(2)]
    show ?thesis by simp
  qed
qed

lemma set_compact: "set (compact g i ts) \<subseteq> set ts"
  by (induction ts arbitrary: i) auto

lemma walkPageTable_held:
  assumes "walkPageTable now g = Inr (b, g')" and "requestsHeld g"
  shows "requestsHeld g' \<and> toRemoveFromPTW g' = []"
proof -
  obtain g1 where l: "walkLoop now 0 False g = Inr (b, g1)"
    and g': "g' = g1\<lparr>walkingTranslations := compact g1 0 (walkingTranslations g1),
                     toRemoveFromPTW := []\<rparr>"
    using assms by (auto simp: walkPageTable_def split: sum.splits)
  have "requestsHeld g1" using walkLoop_held [OF l assms(2)] .
  then show ?thesis
    using g' set_compact [of g1 0 "walkingTranslations g1"]
    by (auto simp: requestsHeld_def)
qed

lemma fetchFromBottom_held:
  assumes "fetchFromBottom ops now g = Inr (b, g')" and "requestsHeld g"
  shows "requestsHeld g' \<and> toRemoveFromPTW g' = toRemoveFromPTW g"
  using assms
  by (auto simp: requestsHeld_def fetchFromBottom_def handleTranslationRsp_def sender_Send_def
        Let_def
        split: if_splits prod.splits option.splits msg.splits sum.splits)

lemma Tick_held:
  assumes "Tick ops now g = Inr (b, g')" and "requestsHeld g"
  shows "requestsHeld g' \<and> toRemoveFromPTW g' = []"
proof -
  obtain p0 ts tp where st: "sender_Tick (topSender g) (topPort g) = (p0, ts, tp)"
    by (cases "sender_Tick (topSender g) (topPort g)") auto
  let ?g0 = "g\<lparr>topSender := ts, topPort := tp\<rparr>"
  obtain p1 g1 p2 g2 p3 where a: "parseFromTop ops now ?g0 = Inr (p1, g1)"
    and b: "walkPageTable now g1 = Inr (p2, g2)"
    and c: "fetchFromBottom ops now g2 = Inr (p3, g')"
    using assms(1) st by (auto simp: Tick_def split: sum.splits prod.splits)
  have "requestsHeld ?g0" using assms(2) by (simp add: requestsHeld_def)
  from parseFromTop_held [OF a this] have "requestsHeld g1" by simp
  from walkPageTable_held [OF b this] have "requestsHeld g2 \<and> toRemoveFromPTW g2 = []" .
  with fetchFromBottom_held [OF c] show ?thesis by simp
qed

lemma reachable_held:
  "reachable ops b name g \<Longrightarrow> requestsHeld g \<and> toRemoveFromPTW g = []"
proof (induction rule: reachable.induct)
  case built
  then show ?case by (simp add: requestsHeld_def Build_def Let_def)
next
  case (ticked g now progress g')
  then show ?case using Tick_held by blast
next
  case (environment g tp bp pt)
  then show ?case by (simp add: requestsHeld_def)
qed

subsection \<open>Page walks that hit the local device\<close>

lemma walkStep_other:
  assumes "walkStep now i mp g = Inr (b, g')" and "k \<noteq> i"
  shows "walkingTranslations g' ! k = walkingTranslations g ! k"
  using assms
  by (auto simp: walkStep_def finalizePageWalk_def doPageWalkHit_def processRemoteMemReq_def
        sender_Send_def port_Send_def Let_def
        split: if_splits option.splits prod.splits sum.splits)

lemma walkStep_toRemove:
  assumes "walkStep now i mp g = Inr (b, g')"
  shows "toRemoveFromPTW g' = toRemoveFromPTW g \<or> toRemoveFromPTW g' = toRemoveFromPTW g @ [i]"
  using assms
  by (auto simp: walkStep_def finalizePageWalk_def doPageWalkHit_def processRemoteMemReq_def
        sender_Send_def port_Send_def Let_def
        split: if_splits option.splits prod.splits sum.splits)

lemma walkStep_sender:
  assumes "walkStep now i mp g = Inr (b, g')"
  shows "\<exists>new. senderBuf (topSender g') = senderBuf (topSender g) @ new"
  using assms
  by (auto simp: walkStep_def finalizePageWalk_def doPageWalkHit_def processRemoteMemReq_def
        sender_Send_def port_Send_def Let_def
        split: if_splits option.splits prod.splits sum.splits)

lemma walkStep_full:
  assumes "walkStep now i mp g = Inr (b, g')" and "\<not> CanSend (topSender g) 1"
  shows "topSender g' = topSender g"
  using assms
  by (auto simp: walkStep_def finalizePageWalk_def doPageWalkHit_def processRemoteMemReq_def
        sender_Send_def port_Send_def Let_def
        split: if_splits option.splits prod.splits sum.splits)

lemma walkStep_local:
  assumes st: "walkStep now i mp g = Inr (b, g')"
    and i: "i < length (walkingTranslations g)"
    and due: "cycleLeft (walkingTranslations g ! i) \<le> 0"
    and rq: "req (walkingTranslations g ! i) = Some r"
    and pg: "pt_Find (pageTable g) (reqPID r) (reqVAddr r) = (pg, fnd)"
    and local: "DeviceID pg = deviceID g"
  shows "walkingTranslations g' ! i = (walkingTranslations g ! i)\<lparr>page := pg\<rparr>
       \<and> ((\<not> CanSend (topSender g) 1 \<and> toRemoveFromPTW g' = toRemoveFromPTW g
              \<and> topSender g' = topSender g)
          \<or> (toRemoveFromPTW g' = toRemoveFromPTW g @ [i]
              \<and> senderBuf (topSender g') = senderBuf (topSender g) @
                   [TranslationRspMsg (buildTranslationRsp (idGenerator g) now
                      (PortRef (portName (topPort g))) (Src r) (ID r) pg)]))"
  using assms
  by (auto simp: walkStep_def finalizePageWalk_def doPageWalkHit_def
        sender_Send_def Let_def
        split: if_splits option.splits prod.splits sum.splits)

lemma walkLoop_before:
  "walkLoop now i mp g = Inr (b, g') \<Longrightarrow> k < i \<Longrightarrow>
     walkingTranslations g' ! k = walkingTranslations g ! k
   \<and> (k \<in> set (toRemoveFromPTW g') \<longleftrightarrow> k \<in> set (toRemoveFromPTW g))"
proof (induction now i mp g rule: walkLoop.induct)
  case (1 now i mp g)
  show ?case
  proof (cases "i < length (walkingTranslations g)")
    case False
    with "1.prems" show ?thesis by (simp add: walkLoop.simps [of now i mp g])
  next
    case True
    then obtain mp1 g1 where st: "walkStep now i mp g = Inr (mp1, g1)"
      and rest: "walkLoop now (Suc i) mp1 g1 = Inr (b, g')"
      using "1.prems"
      by (auto simp: walkLoop.simps [of now i mp g] split: sum.splits)
    have "k < Suc i" using "1.prems" by simp
    from "1.IH" [OF True st refl rest this]
      walkStep_other [OF st, of k] walkStep_toRemove [OF st] "1.prems"(2)
    show ?thesis by auto
  qed
qed

lemma walkLoop_sender:
  "walkLoop now i mp g = Inr (b, g') \<Longrightarrow>
     \<exists>new. senderBuf (topSender g') = senderBuf (topSender g) @ new"
proof (induction now i mp g rule: walkLoop.induct)
  case (1 now i mp g)
  show ?case
  proof (cases "i < length (walkingTranslations g)")
    case False
    with "1.prems" show ?thesis by (simp add: walkLoop.simps [of now i mp g])
  next
    case True
    then obtain mp1 g1 where st: "walkStep now i mp g = Inr (mp1, g1)"
      and rest: "walkLoop now (Suc i) mp1 g1 = Inr (b, g')"
      using "1.prems"
      by (auto simp: walkLoop.simps [of now i mp g] split: sum.splits)
    from "1.IH" [OF True st refl rest] walkStep_sender [OF st]
    show ?thesis by auto
  qed
qed

lemma walkLoop_full:
  "walkLoop now i mp g = Inr (b, g') \<Longrightarrow> \<not> CanSend (topSender g) 1 \<Longrightarrow>
     topSender g' = topSender g"
proof (induction now i mp g rule: walkLoop.induct)
  case (1 now i mp g)
  show ?case
  proof (cases "i < length (walkingTranslations g)")
    case False
    with "1.prems" show ?thesis by (simp add: walkLoop.simps [of now i mp g])
  next
    case True
    then obtain mp1 g1 where st: "walkStep now i mp g = Inr (mp1, g1)"
      and rest: "walkLoop now (Suc i) mp1 g1 = Inr (b, g')"
      using "1.prems"
      by (auto simp: walkLoop.simps [of now i mp g] split: sum.splits)
    have eq: "topSender g1 = topSender g" using walkStep_full [OF st "1.prems"(2)] .
    then have "\<not> CanSend (topSender g1) 1" using "1.prems"(2) by simp
    from "1.IH" [OF True st refl rest this] eq
    show ?thesis by simp
  qed
qed

lemma walkLoop_local:
  "walkLoop now i mp g = Inr (b, g') \<Longrightarrow> i \<le> k \<Longrightarrow> k < length (walkingTranslations g) \<Longrightarrow>
   cycleLeft (walkingTranslations g ! k) \<le> 0 \<Longrightarrow>
   req (walkingTranslations g ! k) = Some r \<Longrightarrow>
   pt_Find (pageTable g) (reqPID r) (reqVAddr r) = (pg, fnd) \<Longrightarrow>
   DeviceID pg = deviceID g \<Longrightarrow>
   k \<notin> set (toRemoveFromPTW g) \<Longrightarrow>
     walkingTranslations g' ! k = (walkingTranslations g ! k)\<lparr>page := pg\<rparr>
   \<and> (k \<in> set (toRemoveFromPTW g') \<longrightarrow>
        (\<exists>n new. senderBuf (topSender g') = senderBuf (topSender g) @ new
            \<and> TranslationRspMsg (buildTranslationRsp n now
                 (PortRef (portName (topPort g))) (Src r) (ID r) pg) \<in> set new))"
proof (induction now i mp g rule: walkLoop.induct)
  case (1 now i mp g)
  have True: "i < length (walkingTranslations g)" using "1.prems" by simp
  then obtain mp1 g1 where st: "walkStep now i mp g = Inr (mp1, g1)"
    and rest: "walkLoop now (Suc i) mp1 g1 = Inr (b, g')"
    using "1.prems"(1)
    by (auto simp: walkLoop.simps [of now i mp g] split: sum.splits)
  note fr = walkStep_frame [OF st] walkStep_length [OF st]
  show ?case
  proof (cases "i = k")
    case True
    note loc = walkStep_local [OF st, of r pg fnd] 
    have k1: "k < Suc i" using True by simp
    note bef = walkLoop_before [OF rest k1]
    obtain new2 where n2: "senderBuf (topSender g') = senderBuf (topSender g1) @ new2"
      using walkLoop_sender [OF rest] by blast
    from loc "1.prems" True have
      pgk: "walkingTranslations g1 ! k = (walkingTranslations g ! k)\<lparr>page := pg\<rparr>"
      by simp
    from loc "1.prems" True have
      alt: "(toRemoveFromPTW g1 = toRemoveFromPTW g)
          \<or> (toRemoveFromPTW g1 = toRemoveFromPTW g @ [k]
              \<and> senderBuf (topSender g1) = senderBuf (topSender g) @
                   [TranslationRspMsg (buildTranslationRsp (idGenerator g) now
                      (PortRef (portName (topPort g))) (Src r) (ID r) pg)])"
      by auto
    from alt show ?thesis
    proof
      assume "toRemoveFromPTW g1 = toRemoveFromPTW g"
      then show ?thesis using bef pgk "1.prems"(8) by simp
    next
      assume a: "toRemoveFromPTW g1 = toRemoveFromPTW g @ [k]
              \<and> senderBuf (topSender g1) = senderBuf (topSender g) @
                   [TranslationRspMsg (buildTranslationRsp (idGenerator g) now
                      (PortRef (portName (topPort g))) (Src r) (ID r) pg)]"
      then have "senderBuf (topSender g') = senderBuf (topSender g) @
           (TranslationRspMsg (buildTranslationRsp (idGenerator g) now
                      (PortRef (portName (topPort g))) (Src r) (ID r) pg) # new2)"
        using n2 by simp
      then have "\<exists>n new. senderBuf (topSender g') = senderBuf (topSender g) @ new
            \<and> TranslationRspMsg (buildTranslationRsp n now
                 (PortRef (portName (topPort g))) (Src r) (ID r) pg) \<in> set new"
        by (metis list.set_intros(1))
      then show ?thesis using bef pgk by simp
    qed
  next
    case False
    then have lt: "Suc i \<le> k" using "1.prems"(2) by simp
    have same: "walkingTranslations g1 ! k = walkingTranslations g ! k"
      using walkStep_other [OF st, of k] False by simp
    have notin: "k \<notin> set (toRemoveFromPTW g1)"
      using walkStep_toRemove [OF st] "1.prems"(8) False by auto
    obtain new1 where n1: "senderBuf (topSender g1) = senderBuf (topSender g) @ new1"
      using walkStep_sender [OF st] by blast
    have ih: "walkingTranslations g' ! k = (walkingTranslations g1 ! k)\<lparr>page := pg\<rparr>
       \<and> (k \<in> set (toRemoveFromPTW g') \<longrightarrow>
        (\<exists>n new. senderBuf (topSender g') = senderBuf (topSender g1) @ new
            \<and> TranslationRspMsg (buildTranslationRsp n now
                 (PortRef (portName (topPort g1))) (Src r) (ID r) pg) \<in> set new))"
      using "1.IH" [OF True st refl rest lt] "1.prems" fr same notin by simp
    show ?thesis
    proof (intro conjI impI)
      show "walkingTranslations g' ! k = (walkingTranslations g ! k)\<lparr>page := pg\<rparr>"
        using ih same by simp
    next
      assume "k \<in> set (toRemoveFromPTW g')"
      then obtain n new where
        "senderBuf (topSender g') = senderBuf (topSender g1) @ new"
        "TranslationRspMsg (buildTranslationRsp n now
                 (PortRef (portName (topPort g1))) (Src r) (ID r) pg) \<in> set new"
        using ih by blast
      then have "senderBuf (topSender g') = senderBuf (topSender g) @ (new1 @ new)
          \<and> TranslationRspMsg (buildTranslationRsp n now
                 (PortRef (portName (topPort g))) (Src r) (ID r) pg) \<in> set (new1 @ new)"
        using n1 fr by simp
      then show "\<exists>n new. senderBuf (topSender g') = senderBuf (topSender g) @ new
            \<and> TranslationRspMsg (buildTranslationRsp n now
                 (PortRef (portName (topPort g))) (Src r) (ID r) pg) \<in> set new"
        by blast
    qed
  qed
qed

lemma compact_nths:
  "compact g i ts = nths ts {j. j + i \<notin> set (toRemoveFromPTW g)}"
proof (induction ts arbitrary: i)
  case Nil
  then show ?case by simp
next
  case (Cons t ts)
  have scan: "\<And>xs n. toRemove_scan xs n = (n \<in> set xs)"
  proof -
    fix xs :: "nat list" and n show "toRemove_scan xs n = (n \<in> set xs)"
      by (induction xs) auto
  qed
  show ?case
    using Cons.IH [of "Suc i"]
    by (simp add: nths_Cons toRemove_def scan)
qed


lemma walkStep_total:
  assumes "i < length (walkingTranslations g)"
    and "\<forall>j < length (walkingTranslations g). req (walkingTranslations g ! j) \<noteq> None"
  shows "\<exists>b g'. walkStep now i mp g = Inr (b, g')
           \<and> (\<forall>j < length (walkingTranslations g'). req (walkingTranslations g' ! j) \<noteq> None)"
proof -
  obtain r where r: "req (walkingTranslations g ! i) = Some r"
    using assms by auto
  obtain pg fnd where pg: "pt_Find (pageTable g) (reqPID r) (reqVAddr r) = (pg, fnd)"
    by (cases "pt_Find (pageTable g) (reqPID r) (reqVAddr r)") auto
  have upd: "\<And>t. req t = Some r \<Longrightarrow>
      \<forall>j < length (walkingTranslations g). req ((walkingTranslations g)[i := t] ! j) \<noteq> None"
    using assms by (auto simp: nth_list_update)
  show ?thesis
  proof (cases "cycleLeft (walkingTranslations g ! i) > 0")
    case True
    then show ?thesis
      using upd [of "(walkingTranslations g ! i)\<lparr>cycleLeft := cycleLeft (walkingTranslations g ! i) - 1\<rparr>"] r
      by (auto simp: walkStep_def Let_def)
  next
    case False
    show ?thesis
    proof (cases "DeviceID pg = deviceID g")
      case True
      show ?thesis
        using False True r pg assms(1) upd [of "(walkingTranslations g ! i)\<lparr>page := pg\<rparr>"]
        by (auto simp: walkStep_def finalizePageWalk_def doPageWalkHit_def sender_Send_def
              CanSend_def Let_def)
    next
      case nl: False
      show ?thesis
        using False nl r pg assms
        by (auto simp: walkStep_def processRemoteMemReq_def port_Send_def Let_def)
    qed
  qed
qed

lemma walkLoop_total:
  "\<forall>j < length (walkingTranslations g). req (walkingTranslations g ! j) \<noteq> None \<Longrightarrow>
     \<exists>b g'. walkLoop now i mp g = Inr (b, g')"
proof (induction now i mp g rule: walkLoop.induct)
  case (1 now i mp g)
  show ?case
  proof (cases "i < length (walkingTranslations g)")
    case False
    then show ?thesis by (simp add: walkLoop.simps [of now i mp g])
  next
    case True
    obtain mp1 g1 where st: "walkStep now i mp g = Inr (mp1, g1)"
      and inv: "\<forall>j < length (walkingTranslations g1). req (walkingTranslations g1 ! j) \<noteq> None"
      using walkStep_total [OF True "1.prems"] by blast
    from "1.IH" [OF True st refl inv] obtain b g' where
      "walkLoop now (Suc i) mp1 g1 = Inr (b, g')" by blast
    then show ?thesis using True st by (simp add: walkLoop.simps [of now i mp g])
  qed
qed

text \<open>
  C7 (as amended). Let the transaction at index \<open>k\<close> of the walking list be due
  (\<open>cycleLeft\<close> not above 0) with a page of the local device. \<^verbatim>\<open>walkPageTable\<close> returns;
  after its first loop the transaction is still at index \<open>k\<close>, with its request and
  \<open>cycleLeft\<close> as before and its \<open>page\<close> field overwritten by the page-table entry; the
  walking list after the call is that list without the indices on the removal list. If
  the top sender had no room, \<open>k\<close> is not on the removal list, the transaction stays in
  the walking list (to be tried again by the next tick), and the top sender is
  unchanged. If \<open>k\<close> is on the removal list, a response for its request (to its sender,
  with its ID and the page) was enqueued on the top sender in this call. The first two
  premises hold in every reachable state and after \<^verbatim>\<open>parseFromTop\<close> (\<open>reachable_held\<close>,
  \<open>parseFromTop_held\<close>).
\<close>

theorem walkPageTable_local_hit:
  assumes reqs: "\<forall>t \<in> set (walkingTranslations g). req t \<noteq> None"
    and clean: "toRemoveFromPTW g = []"
    and k: "k < length (walkingTranslations g)"
    and due: "cycleLeft (walkingTranslations g ! k) \<le> 0"
    and rq: "req (walkingTranslations g ! k) = Some r"
    and pg: "pt_Find (pageTable g) (reqPID r) (reqVAddr r) = (pg, fnd)"
    and local: "DeviceID pg = deviceID g"
  shows "\<exists>mp g1 g'.
        walkLoop now 0 False g = Inr (mp, g1) \<and> walkPageTable now g = Inr (mp, g')
      \<and> walkingTranslations g' =
          nths (walkingTranslations g1) {j. j \<notin> set (toRemoveFromPTW g1)}
      \<and> walkingTranslations g1 ! k = (walkingTranslations g ! k)\<lparr>page := pg\<rparr>
      \<and> (k \<notin> set (toRemoveFromPTW g1) \<longrightarrow>
            (walkingTranslations g ! k)\<lparr>page := pg\<rparr> \<in> set (walkingTranslations g'))
      \<and> (\<not> CanSend (topSender g) 1 \<longrightarrow>
            k \<notin> set (toRemoveFromPTW g1) \<and> topSender g' = topSender g)
      \<and> (k \<in> set (toRemoveFromPTW g1) \<longrightarrow>
            (\<exists>n new. senderBuf (topSender g') = senderBuf (topSender g) @ new
                \<and> TranslationRspMsg (buildTranslationRsp n now
                     (PortRef (portName (topPort g))) (Src r) (ID r) pg) \<in> set new))"
proof -
  have "\<forall>j < length (walkingTranslations g). req (walkingTranslations g ! j) \<noteq> None"
    using reqs by simp
  then obtain mp g1 where loop: "walkLoop now 0 False g = Inr (mp, g1)"
    using walkLoop_total by blast
  define g' where "g' = g1\<lparr>walkingTranslations := compact g1 0 (walkingTranslations g1),
                            toRemoveFromPTW := []\<rparr>"
  have run: "walkPageTable now g = Inr (mp, g')"
    using loop by (simp add: walkPageTable_def g'_def)
  have w': "walkingTranslations g' =
              nths (walkingTranslations g1) {j. j \<notin> set (toRemoveFromPTW g1)}"
    using compact_nths [of g1 0 "walkingTranslations g1"] by (simp add: g'_def)
  have ts: "topSender g' = topSender g1" by (simp add: g'_def)
  have len: "length (walkingTranslations g1) = length (walkingTranslations g)"
    using walkLoop_frame [OF loop] by simp
  have notin: "k \<notin> set (toRemoveFromPTW g)" using clean by simp
  note loc = walkLoop_local [OF loop _ k due rq pg local notin]
  have at_k: "walkingTranslations g1 ! k = (walkingTranslations g ! k)\<lparr>page := pg\<rparr>"
    using loc by simp
  have kept: "k \<notin> set (toRemoveFromPTW g1) \<longrightarrow>
            (walkingTranslations g ! k)\<lparr>page := pg\<rparr> \<in> set (walkingTranslations g')"
  proof
    assume "k \<notin> set (toRemoveFromPTW g1)"
    then have "walkingTranslations g1 ! k \<in> set (walkingTranslations g')"
      using k len by (auto simp: w' set_nths)
    then show "(walkingTranslations g ! k)\<lparr>page := pg\<rparr> \<in> set (walkingTranslations g')"
      using at_k by simp
  qed
  have sent: "k \<in> set (toRemoveFromPTW g1) \<longrightarrow>
            (\<exists>n new. senderBuf (topSender g') = senderBuf (topSender g) @ new
                \<and> TranslationRspMsg (buildTranslationRsp n now
                     (PortRef (portName (topPort g))) (Src r) (ID r) pg) \<in> set new)"
    using loc ts by simp
  have full: "\<not> CanSend (topSender g) 1 \<longrightarrow>
            k \<notin> set (toRemoveFromPTW g1) \<and> topSender g' = topSender g"
  proof
    assume nf: "\<not> CanSend (topSender g) 1"
    have same: "topSender g1 = topSender g" using walkLoop_full [OF loop nf] .
    have "k \<notin> set (toRemoveFromPTW g1)"
    proof
      assume "k \<in> set (toRemoveFromPTW g1)"
      then obtain n new where "senderBuf (topSender g1) = senderBuf (topSender g) @ new"
        and "TranslationRspMsg (buildTranslationRsp n now
                     (PortRef (portName (topPort g))) (Src r) (ID r) pg) \<in> set new"
        using loc by blast
      then show False using same by auto
    qed
    then show "k \<notin> set (toRemoveFromPTW g1) \<and> topSender g' = topSender g"
      using same ts by simp
  qed
  show ?thesis using loop run w' at_k kept full sent by blast
qed


theorem walkPageTable_local_hit_witness:
  "walkingTranslations ex_stalled = [\<lparr>req = Some ex_req, page = zero_page, cycleLeft = 0\<rparr>]
   \<and> toRemoveFromPTW ex_stalled = []
   \<and> pt_Find (pageTable ex_stalled) (reqPID ex_req) (reqVAddr ex_req) = (ex_page, True)
   \<and> DeviceID ex_page = deviceID ex_stalled
   \<and> \<not> CanSend (topSender ex_stalled) 1
   \<and> (\<exists>mp g'. walkPageTable 5 ex_stalled = Inr (mp, g')
         \<and> \<lparr>req = Some ex_req, page = ex_page, cycleLeft = 0\<rparr> \<in> set (walkingTranslations g')
         \<and> topSender g' = topSender ex_stalled)"
proof -
  have w: "walkingTranslations ex_stalled = [\<lparr>req = Some ex_req, page = zero_page, cycleLeft = 0\<rparr>]"
    by (simp add: ex_stalled_def)
  have h1: "\<forall>t \<in> set (walkingTranslations ex_stalled). req t \<noteq> None"
    by (simp add: w)
  have h2: "toRemoveFromPTW ex_stalled = []"
    by (simp add: ex_stalled_def ex_gmmu_simps)
  have h3: "(0::nat) < length (walkingTranslations ex_stalled)"
    by (simp add: w)
  have h4: "cycleLeft (walkingTranslations ex_stalled ! 0) \<le> 0"
    by (simp add: w)
  have h5: "req (walkingTranslations ex_stalled ! 0) = Some ex_req"
    by (simp add: w)
  have h6: "pt_Find (pageTable ex_stalled) (reqPID ex_req) (reqVAddr ex_req) = (ex_page, True)"
    by (simp add: ex_stalled_def ex_gmmu_simps ex_req_simps pt_Find_def)
  have h7: "DeviceID ex_page = deviceID ex_stalled"
    by (simp add: ex_stalled_def ex_gmmu_simps ex_page_def)
  have h8: "\<not> CanSend (topSender ex_stalled) 1"
    by (simp add: ex_stalled_def CanSend_def)
  from walkPageTable_local_hit [OF h1 h2 h3 h4 h5 h6 h7, of 5] h8
  have "\<exists>mp g'. walkPageTable 5 ex_stalled = Inr (mp, g')
         \<and> (walkingTranslations ex_stalled ! 0)\<lparr>page := ex_page\<rparr> \<in> set (walkingTranslations g')
         \<and> topSender g' = topSender ex_stalled"
    by blast
  then have r: "\<exists>mp g'. walkPageTable 5 ex_stalled = Inr (mp, g')
         \<and> \<lparr>req = Some ex_req, page = ex_page, cycleLeft = 0\<rparr> \<in> set (walkingTranslations g')
         \<and> topSender g' = topSender ex_stalled"
    by (simp add: w)
  show ?thesis using w h2 h6 h7 h8 r by blast
qed

text \<open>The claim as stated fails in the word "unchanged": \<^verbatim>\<open>finalizePageWalk\<close> stores
  the page in the transaction before \<^verbatim>\<open>doPageWalkHit\<close> tests the top sender, so the
  transaction that stays behind differs from the one that was there.\<close>

theorem stalled_page_overwritten:
  "walkPageTable 5 ex_stalled =
     Inr (False, ex_stalled
       \<lparr>walkingTranslations := [\<lparr>req = Some ex_req, page = ex_page, cycleLeft = 0\<rparr>]\<rparr>)
   \<and> walkingTranslations ex_stalled = [\<lparr>req = Some ex_req, page = zero_page, cycleLeft = 0\<rparr>]
   \<and> \<not> CanSend (topSender ex_stalled) 1
   \<and> ex_page \<noteq> zero_page"
  using ex_stalled_walk
  by (simp add: ex_stalled_def CanSend_def ex_page_def zero_page_def)


section \<open>Properties of the ring\<close>

text \<open>The ring \<^verbatim>\<open>NewRingNoC\<close> returns has sixteen TLBs, each with its position as ID.\<close>

lemma NewRingNoC_wellformed:
  "NumTLBs (NewRingNoC now seID built) = 16
   \<and> length (TLBs (NewRingNoC now seID built)) = 16
   \<and> (\<forall>i < 16. tlbID (TLBs (NewRingNoC now seID built) ! i) = int i)"
  by (simp add: NewRingNoC_def)

lemma ex_ring_length: "length (TLBs ex_ring) = 16"
  by (simp add: ex_ring_def NewRingNoC_def)

lemma ex_ring_nth:
  "i < 16 \<Longrightarrow>
     TLBs ex_ring ! i =
       ex_tlb\<lparr>tlbID := int i, PrefetchBuffer := replicate 24 zero_page, ProbeQueue := []\<rparr>"
  by (simp add: ex_ring_def NewRingNoC_def)

lemma ex_ring_simps:
  "NumTLBs ex_ring = 16" "SEID ex_ring = 0" "engineNow ex_ring = 0" "conn ex_ring = []"
  "ringIDs ex_ring = 0"
  by (simp_all add: ex_ring_def NewRingNoC_def)

text \<open>
  C4. \<^verbatim>\<open>InitiateProbing\<close> appends exactly two probe requests to the probe queue of the
  initiating TLB: first a clockwise one with TTL 15, then a counterclockwise one with
  TTL 4; both carry the ID of the initiating TLB as \<open>SourceTLB\<close>, the SEID of the ring
  and the probed address.
\<close>

theorem InitiateProbing_enqueues_two_probes:
  assumes "self < length (TLBs ring)"
  shows "\<exists>cw ccw.
      ProbeQueue (TLBs (InitiateProbing ring self va) ! self) =
        ProbeQueue (TLBs ring ! self) @ [cw, ccw]
    \<and> Direction cw = ''clockwise'' \<and> TTL cw = 15
    \<and> Direction ccw = ''counterclockwise'' \<and> TTL ccw = 4
    \<and> SourceTLB cw = tlbID (TLBs ring ! self) \<and> SourceTLB ccw = tlbID (TLBs ring ! self)
    \<and> reqSEID cw = SEID ring \<and> reqSEID ccw = SEID ring
    \<and> VirtualAddr cw = va \<and> VirtualAddr ccw = va"
  using assms by (simp add: InitiateProbing_def Let_def)

theorem InitiateProbing_enqueues_two_probes_witness:
  "(3::nat) < length (TLBs ex_ring)
   \<and> (\<exists>cw ccw.
        ProbeQueue (TLBs (InitiateProbing ex_ring 3 0x1000) ! 3) = [cw, ccw]
      \<and> Direction cw = ''clockwise'' \<and> TTL cw = 15
      \<and> Direction ccw = ''counterclockwise'' \<and> TTL ccw = 4
      \<and> SourceTLB cw = 3 \<and> SourceTLB ccw = 3
      \<and> reqSEID cw = 0 \<and> reqSEID ccw = 0
      \<and> VirtualAddr cw = 0x1000 \<and> VirtualAddr ccw = 0x1000)"
proof -
  have h: "(3::nat) < length (TLBs ex_ring)"
    by (simp add: ex_ring_length)
  show ?thesis
    using h InitiateProbing_enqueues_two_probes [OF h, of "0x1000"]
    by (simp add: ex_ring_nth ex_ring_simps)
qed

lemma wrap64_small: "- (2 ^ 63) \<le> x \<Longrightarrow> x < 2 ^ 63 \<Longrightarrow> wrap64 x = x"
  by (simp add: wrap64_def)

lemma go_rem_nonneg: "0 \<le> a \<Longrightarrow> 0 < b \<Longrightarrow> go_rem a b = a mod b"
  by (simp add: go_rem_def sgn_if)

text \<open>
  C5. \<^verbatim>\<open>SendProbeRequest\<close> on a ring as \<^verbatim>\<open>NewRingNoC\<close> builds it (16 TLBs, each with its
  position as ID). A probe with TTL 0 dies here: \<^verbatim>\<open>NotifyMiss\<close> runs on the TLB at
  \<open>SourceTLB\<close> for the probed address. A probe with positive TTL in one of the two
  directions is handed to the ring connection with its TTL one less, from this TLB to
  the neighbour \<open>(id + 1) mod 16\<close> clockwise and \<open>(id - 1 + 16) mod 16\<close> counterclockwise.
\<close>

theorem SendProbeRequest_two_cases:
  assumes wf: "NumTLBs ring = 16" "length (TLBs ring) = 16" "self < 16"
      "tlbID (TLBs ring ! self) = int self"
  shows "(TTL r = 0 \<and> 0 \<le> SourceTLB r \<and> SourceTLB r < 16 \<longrightarrow>
            SendProbeRequest ring self r =
              Inr (NotifyMiss ring (nat (SourceTLB r)) (VirtualAddr r)))
       \<and> (TTL r > 0 \<and> Direction r = ''clockwise'' \<longrightarrow>
            SendProbeRequest ring self r =
              Inr (ring\<lparr>conn := conn ring @
                     [ProbeRequestMsg (r\<lparr>TTL := TTL r - 1, Src := L1Ref (int self),
                        Dst := L1Ref ((int self + 1) mod 16),
                        SendTime := engineNow ring, TrafficBytes := 64\<rparr>)]\<rparr>))
       \<and> (TTL r > 0 \<and> Direction r = ''counterclockwise'' \<longrightarrow>
            SendProbeRequest ring self r =
              Inr (ring\<lparr>conn := conn ring @
                     [ProbeRequestMsg (r\<lparr>TTL := TTL r - 1, Src := L1Ref (int self),
                        Dst := L1Ref ((int self - 1 + 16) mod 16),
                        SendTime := engineNow ring, TrafficBytes := 64\<rparr>)]\<rparr>))"
proof -
  have cw: "GetNextTLB ring (int self) ''clockwise'' = Inr (Some (nat ((int self + 1) mod 16)))"
    using wf by (simp add: GetNextTLB_def tlbAt_def wrap64_small go_rem_nonneg)
  have ccw: "GetNextTLB ring (int self) ''counterclockwise'' =
               Inr (Some (nat ((int self - 1 + 16) mod 16)))"
    using wf by (simp add: GetNextTLB_def tlbAt_def wrap64_small go_rem_nonneg)
  have other: "\<exists>n. GetNextTLB ring (int self) (Direction r) = Inr n"
    using cw ccw by (auto simp: GetNextTLB_def)
  show ?thesis
    using wf cw ccw other
    by (auto simp: SendProbeRequest_def tlbAt_def split: option.splits)
qed

lemma ex_probe_simps:
  "TTL (ex_probe d t) = t" "Direction (ex_probe d t) = d" "SourceTLB (ex_probe d t) = 0"
  "VirtualAddr (ex_probe d t) = 0x1000"
  by (simp_all add: ex_probe_def)

theorem SendProbeRequest_two_cases_witness:
  "NumTLBs ex_ring = 16 \<and> length (TLBs ex_ring) = 16 \<and> (0::nat) < 16
   \<and> tlbID (TLBs ex_ring ! 0) = int 0
   \<and> SendProbeRequest ex_ring 0 (ex_probe ''clockwise'' 0) = Inr (NotifyMiss ex_ring 0 0x1000)
   \<and> SendProbeRequest ex_ring 0 (ex_probe ''clockwise'' 15) =
       Inr (ex_ring\<lparr>conn := [ProbeRequestMsg ((ex_probe ''clockwise'' 15)
              \<lparr>TTL := 14, Src := L1Ref 0, Dst := L1Ref 1, SendTime := 0, TrafficBytes := 64\<rparr>)]\<rparr>)
   \<and> SendProbeRequest ex_ring 0 (ex_probe ''counterclockwise'' 4) =
       Inr (ex_ring\<lparr>conn := [ProbeRequestMsg ((ex_probe ''counterclockwise'' 4)
              \<lparr>TTL := 3, Src := L1Ref 0, Dst := L1Ref 15, SendTime := 0, TrafficBytes := 64\<rparr>)]\<rparr>)"
proof -
  have h1: "NumTLBs ex_ring = 16" by (simp add: ex_ring_simps)
  have h2: "length (TLBs ex_ring) = 16" by (simp add: ex_ring_length)
  have h3: "(0::nat) < 16" by simp
  have h4: "tlbID (TLBs ex_ring ! 0) = int 0" by (simp add: ex_ring_nth)
  note t = SendProbeRequest_two_cases [OF h1 h2 h3 h4]
  have r1: "SendProbeRequest ex_ring 0 (ex_probe ''clockwise'' 0) =
              Inr (NotifyMiss ex_ring 0 0x1000)"
    using t [of "ex_probe ''clockwise'' 0"] by (simp add: ex_probe_simps)
  have r2: "SendProbeRequest ex_ring 0 (ex_probe ''clockwise'' 15) =
       Inr (ex_ring\<lparr>conn := [ProbeRequestMsg ((ex_probe ''clockwise'' 15)
              \<lparr>TTL := 14, Src := L1Ref 0, Dst := L1Ref 1, SendTime := 0, TrafficBytes := 64\<rparr>)]\<rparr>)"
    using t [of "ex_probe ''clockwise'' 15"] by (simp add: ex_probe_simps ex_ring_simps)
  have r3: "SendProbeRequest ex_ring 0 (ex_probe ''counterclockwise'' 4) =
       Inr (ex_ring\<lparr>conn := [ProbeRequestMsg ((ex_probe ''counterclockwise'' 4)
              \<lparr>TTL := 3, Src := L1Ref 0, Dst := L1Ref 15, SendTime := 0, TrafficBytes := 64\<rparr>)]\<rparr>)"
    using t [of "ex_probe ''counterclockwise'' 4"] by (simp add: ex_probe_simps ex_ring_simps)
  show ?thesis using h1 h2 h3 h4 r1 r2 r3 by blast
qed

lemma fetchReqs_Cons:
  "fetchReqs now p low va ids (r # rs) =
     TranslationReqMsg (buildTranslationReq ids now (PortRef (portName p)) low
                          (reqPID r) va (reqDeviceID r))
     # fetchReqs now p low va (Suc ids) rs"
proof -
  have "[ids..<ids + length (r # rs)] = ids # [Suc ids..<ids + length (r # rs)]"
    by (rule upt_conv_Cons) simp
  then show ?thesis by (simp add: fetchReqs_def del: upt_Suc)
qed

lemma fetchReqs_portName:
  "portName p' = portName p \<Longrightarrow> fetchReqs now p' low va ids rs = fetchReqs now p low va ids rs"
  by (simp add: fetchReqs_def)

lemma notifyLoop_port:
  "fst (snd (notifyLoop now low va rs (ids, p, tb))) =
     p\<lparr>outgoing := outgoing p @
          take (outCap p - length (outgoing p)) (fetchReqs now p low va ids rs)\<rparr>"
proof (induction rs arbitrary: ids p tb)
  case Nil
  then show ?case by (simp add: fetchReqs_def)
next
  case (Cons r rs)
  show ?case
  proof (cases "length (outgoing p) < outCap p")
    case True
    then obtain k where k: "outCap p - length (outgoing p) = Suc k"
      by (metis Suc_diff_Suc)
    let ?f = "buildTranslationReq ids now (PortRef (portName p)) low (reqPID r) va (reqDeviceID r)"
    let ?p' = "p\<lparr>outgoing := outgoing p @ [TranslationReqMsg ?f]\<rparr>"
    have k': "outCap ?p' - length (outgoing ?p') = k" using k by simp
    have fr: "fetchReqs now ?p' low va (Suc ids) rs = fetchReqs now p low va (Suc ids) rs"
      by (rule fetchReqs_portName) simp
    show ?thesis
      using True Cons.IH [of "Suc ids" ?p' "Some ?f"] k k' fr
      by (simp add: port_Send_def fetchReqs_Cons Let_def)
  next
    case False
    then show ?thesis
      using Cons.IH [of "Suc ids" p tb]
      by (simp add: port_Send_def Let_def)
  qed
qed

text \<open>
  C1 (as amended). \<^verbatim>\<open>NotifyMiss\<close> never reads \<open>reqToBottom\<close>. While the MSHR holds an
  entry for (PID 0, address), every call sends one translation request per queued
  request out of the bottom port, in order, as long as the port accepts them, whatever
  \<open>reqToBottom\<close> holds. A call sends nothing, and changes nothing, when the MSHR has no
  entry for (PID 0, address).
\<close>

theorem NotifyMiss_sends_per_queued_request:
  "(self < length (TLBs ring) \<and> tlbMshr (TLBs ring ! self) (0, va) = Some entry \<longrightarrow>
      tlbBottomPort (TLBs (NotifyMiss ring self va) ! self) =
        (tlbBottomPort (TLBs ring ! self))
          \<lparr>outgoing := outgoing (tlbBottomPort (TLBs ring ! self)) @
             take (outCap (tlbBottomPort (TLBs ring ! self))
                     - length (outgoing (tlbBottomPort (TLBs ring ! self))))
               (fetchReqs (engineNow ring) (tlbBottomPort (TLBs ring ! self))
                  (tlbLowModule (TLBs ring ! self)) va (ringIDs ring) (Requests entry))\<rparr>)
   \<and> (tlbMshr (TLBs ring ! self) (0, va) = None \<longrightarrow> NotifyMiss ring self va = ring)"
proof (intro conjI impI)
  assume a: "self < length (TLBs ring) \<and> tlbMshr (TLBs ring ! self) (0, va) = Some entry"
  let ?tlb = "TLBs ring ! self"
  obtain ids bottom toBottom where
    nl: "notifyLoop (engineNow ring) (tlbLowModule ?tlb) va (Requests entry)
           (ringIDs ring, tlbBottomPort ?tlb, reqToBottom entry) = (ids, bottom, toBottom)"
    by (cases "notifyLoop (engineNow ring) (tlbLowModule ?tlb) va (Requests entry)
           (ringIDs ring, tlbBottomPort ?tlb, reqToBottom entry)") auto
  have b: "bottom = (tlbBottomPort ?tlb)
          \<lparr>outgoing := outgoing (tlbBottomPort ?tlb) @
             take (outCap (tlbBottomPort ?tlb) - length (outgoing (tlbBottomPort ?tlb)))
               (fetchReqs (engineNow ring) (tlbBottomPort ?tlb)
                  (tlbLowModule ?tlb) va (ringIDs ring) (Requests entry))\<rparr>"
    using notifyLoop_port [of "engineNow ring" "tlbLowModule ?tlb" va "Requests entry"
            "ringIDs ring" "tlbBottomPort ?tlb" "reqToBottom entry"] nl by simp
  show "tlbBottomPort (TLBs (NotifyMiss ring self va) ! self) =
        (tlbBottomPort ?tlb)
          \<lparr>outgoing := outgoing (tlbBottomPort ?tlb) @
             take (outCap (tlbBottomPort ?tlb) - length (outgoing (tlbBottomPort ?tlb)))
               (fetchReqs (engineNow ring) (tlbBottomPort ?tlb)
                  (tlbLowModule ?tlb) va (ringIDs ring) (Requests entry))\<rparr>"
    using a nl b by (simp add: NotifyMiss_def mshr_Query_def Let_def)
next
  assume "tlbMshr (TLBs ring ! self) (0, va) = None"
  then show "NotifyMiss ring self va = ring"
    by (simp add: NotifyMiss_def mshr_Query_def Let_def)
qed

lemma ex_escalated_tlb0:
  "TLBs ex_escalated ! 0 = ex_tlb
     \<lparr>PrefetchBuffer := replicate 24 zero_page,
      tlbBottomPort := (newPort 4 ''L1.Bottom'')
        \<lparr>outCap := 4, outgoing := [TranslationReqMsg
            (buildTranslationReq 0 0 (PortRef ''L1.Bottom'') (PortRef ''L2.Top'') 0 0x1000 1)]\<rparr>,
      tlbMshr := [(0, 0x1000) \<mapsto> \<lparr>Requests = [ex_req], reqToBottom = Some
            (buildTranslationReq 0 0 (PortRef ''L1.Bottom'') (PortRef ''L2.Top'') 0 0x1000 1)\<rparr>]\<rparr>"
  by (simp add: ex_escalated_def ex_waiting_def ex_ring_length ex_ring_nth NotifyMiss_def
        mshr_Query_def Let_def port_Send_def ex_tlb_def newPort_def ex_req_simps
        ex_ring_def NewRingNoC_def)

lemma ex_escalated_simps:
  "length (TLBs ex_escalated) = 16" "ringIDs ex_escalated = 1" "engineNow ex_escalated = 0"
  by (simp_all add: ex_escalated_def ex_waiting_def ex_ring_length ex_ring_nth NotifyMiss_def
        mshr_Query_def Let_def port_Send_def ex_tlb_def newPort_def ex_req_simps
        ex_ring_simps)

theorem NotifyMiss_sends_per_queued_request_witness:
  "(0::nat) < length (TLBs ex_escalated)
   \<and> tlbMshr (TLBs ex_escalated ! 0) (0, 0x1000) =
       Some \<lparr>Requests = [ex_req], reqToBottom = Some
          (buildTranslationReq 0 0 (PortRef ''L1.Bottom'') (PortRef ''L2.Top'') 0 0x1000 1)\<rparr>
   \<and> outgoing (tlbBottomPort (TLBs (NotifyMiss ex_escalated 0 0x1000) ! 0)) =
       [TranslationReqMsg
          (buildTranslationReq 0 0 (PortRef ''L1.Bottom'') (PortRef ''L2.Top'') 0 0x1000 1),
        TranslationReqMsg
          (buildTranslationReq 1 0 (PortRef ''L1.Bottom'') (PortRef ''L2.Top'') 0 0x1000 1)]
   \<and> tlbMshr (TLBs ex_ring ! 0) (0, 0x1000) = None
   \<and> NotifyMiss ex_ring 0 0x1000 = ex_ring"
proof -
  have h1: "(0::nat) < length (TLBs ex_escalated)"
    by (simp add: ex_escalated_simps)
  have h2: "tlbMshr (TLBs ex_escalated ! 0) (0, 0x1000) =
       Some \<lparr>Requests = [ex_req], reqToBottom = Some
          (buildTranslationReq 0 0 (PortRef ''L1.Bottom'') (PortRef ''L2.Top'') 0 0x1000 1)\<rparr>"
    by (simp add: ex_escalated_tlb0)
  have h3: "tlbMshr (TLBs ex_ring ! 0) (0, 0x1000) = None"
    by (simp add: ex_ring_nth ex_tlb_def)
  note t = NotifyMiss_sends_per_queued_request
             [of 0 ex_escalated "0x1000"
                 "\<lparr>Requests = [ex_req], reqToBottom = Some
                    (buildTranslationReq 0 0 (PortRef ''L1.Bottom'') (PortRef ''L2.Top'') 0 0x1000 1)\<rparr>"]
  note u = NotifyMiss_sends_per_queued_request [of 0 ex_ring "0x1000"]
  have r1: "outgoing (tlbBottomPort (TLBs (NotifyMiss ex_escalated 0 0x1000) ! 0)) =
       [TranslationReqMsg
          (buildTranslationReq 0 0 (PortRef ''L1.Bottom'') (PortRef ''L2.Top'') 0 0x1000 1),
        TranslationReqMsg
          (buildTranslationReq 1 0 (PortRef ''L1.Bottom'') (PortRef ''L2.Top'') 0 0x1000 1)]"
    using t h1 h2
    by (simp add: ex_escalated_tlb0 ex_escalated_simps ex_tlb_def newPort_def fetchReqs_def
          ex_req_simps)
  have r2: "NotifyMiss ex_ring 0 0x1000 = ex_ring"
    using u h3 by simp
  show ?thesis using h1 h2 h3 r1 r2 by blast
qed

text \<open>The claim as stated fails: in \<open>ex_escalated\<close> a first \<^verbatim>\<open>NotifyMiss\<close> has sent one
  request and set \<open>reqToBottom\<close>; a second call for the same address sends one more.\<close>

theorem NotifyMiss_second_call_sends_again:
  "reqToBottom (the (tlbMshr (TLBs ex_escalated ! 0) (0, 0x1000))) =
       Some (buildTranslationReq 0 0 (PortRef ''L1.Bottom'') (PortRef ''L2.Top'') 0 0x1000 1)
   \<and> length (outgoing (tlbBottomPort (TLBs ex_escalated ! 0))) = 1
   \<and> length (outgoing (tlbBottomPort (TLBs (NotifyMiss ex_escalated 0 0x1000) ! 0))) = 2"
  by (simp add: ex_escalated_tlb0 ex_escalated_simps NotifyMiss_def mshr_Query_def Let_def
        port_Send_def newPort_def ex_tlb_def)

lemma InitiateProbing_length_TLBs:
  "length (TLBs (InitiateProbing ring self va)) = length (TLBs ring)"
  by (simp add: InitiateProbing_def Let_def)

lemma InitiateProbing_queue_length:
  "self < length (TLBs ring) \<Longrightarrow>
     length (ProbeQueue (TLBs (InitiateProbing ring self va) ! self)) =
       length (ProbeQueue (TLBs ring ! self)) + 2"
  by (simp add: InitiateProbing_def Let_def)

lemma fold_InitiateProbing_queue_length:
  "self < length (TLBs ring) \<Longrightarrow>
     length (ProbeQueue (TLBs (fold (\<lambda>va r. InitiateProbing r self va) vas ring) ! self)) =
       length (ProbeQueue (TLBs ring ! self)) + 2 * length vas"
proof (induction vas arbitrary: ring)
  case Nil
  then show ?case by simp
next
  case (Cons va vas)
  have "self < length (TLBs (InitiateProbing ring self va))"
    using Cons.prems by (simp add: InitiateProbing_length_TLBs)
  from Cons.IH [OF this] show ?case
    using Cons.prems by (simp add: InitiateProbing_queue_length)
qed

lemma ReceiveProbeRequest_forward_appends:
  "self < length (TLBs ring) \<Longrightarrow>
   ReceiveProbeRequest ring self r now = Inr ring' \<Longrightarrow>
   conn ring' = conn ring \<Longrightarrow>
   ProbeQueue (TLBs ring' ! self) = ProbeQueue (TLBs ring ! self) @ [r]"
  by (auto simp: ReceiveProbeRequest_def probeHit_def Let_def
        split: if_splits prod.splits option.splits sum.splits)

text \<open>
  C9. The probe queue is not bounded by 16. Nine misses of TLB 0 before the ring drains
  anything leave 18 probe requests in its queue: \<^verbatim>\<open>InitiateProbing\<close> appends without a
  check, and so does the forwarding step of \<^verbatim>\<open>ReceiveProbeRequest\<close>
  (\<open>ReceiveProbeRequest_forward_appends\<close>).
\<close>

theorem ProbeQueue_grows_past_16:
  "length (ProbeQueue (TLBs (fold (\<lambda>va r. InitiateProbing r 0 va)
       [0x1000, 0x2000, 0x3000, 0x4000, 0x5000, 0x6000, 0x7000, 0x8000, 0x9000] ex_ring) ! 0)) = 18"
  using fold_InitiateProbing_queue_length [of 0 ex_ring
       "[0x1000, 0x2000, 0x3000, 0x4000, 0x5000, 0x6000, 0x7000, 0x8000, 0x9000]"]
  by (simp add: ex_ring_length ex_ring_nth)

end
